theory Spec2Isabelle
  imports Complex_Main "HOL-Library.Sublist"
begin

section \<open>JavaScript values\<close>

text \<open>
  A JavaScript number is modelled as an exact rational or \<open>NaN\<close>: every finite double is
  a rational, and the rounding of each operation and the two infinities are left out.
  The arguments that reach \<open>parseFloat\<close> are \<open>undefined\<close> or numbers; text typed into a
  form field is outside the model.
\<close>

datatype number = NaN | Num rat

datatype jsval = Undefined | Number number

text \<open>
  \<open>parseFloat(v)\<close> converts \<open>v\<close> to a string and reads a decimal literal back:
  \<open>"undefined"\<close> and \<open>"NaN"\<close> give \<open>NaN\<close>, the text of a finite number gives the number.
\<close>

fun parseFloat :: "jsval \<Rightarrow> number" where
  "parseFloat Undefined = NaN"
| "parseFloat (Number n) = n"

text \<open>\<open>n || d\<close> for a number \<open>n\<close>: \<open>NaN\<close> and \<open>0\<close> are falsy, every other number is truthy.\<close>

fun or_number :: "number \<Rightarrow> rat \<Rightarrow> rat" where
  "or_number NaN d = d"
| "or_number (Num r) d = (if r = 0 then d else r)"

text \<open>
  \<open>v || d\<close> for a field of an object read back from JSON, where \<open>None\<close> is a field that
  is absent (or \<open>null\<close>): an object or array is always truthy, a string is falsy when
  empty, a number is falsy when zero.
\<close>

fun or_object :: "'a option \<Rightarrow> 'a \<Rightarrow> 'a" where
  "or_object None d = d"
| "or_object (Some v) d = v"

fun or_string :: "string option \<Rightarrow> string \<Rightarrow> string" where
  "or_string None d = d"
| "or_string (Some s) d = (if s = [] then d else s)"

fun or_field :: "rat option \<Rightarrow> rat \<Rightarrow> rat" where
  "or_field None d = d"
| "or_field (Some r) d = (if r = 0 then d else r)"

text \<open>\<open>Array.prototype.findIndex\<close>: the first index whose element passes, or \<open>-1\<close>.\<close>

fun findIndex :: "('a \<Rightarrow> bool) \<Rightarrow> 'a list \<Rightarrow> int" where
  "findIndex P [] = -1"
| "findIndex P (x # xs) =
     (if P x then 0 else (let i = findIndex P xs in if i = -1 then -1 else i + 1))"

section \<open>calculations.js\<close>

record totals =
  tot_subtotal :: rat
  tot_tax :: rat
  tot_discount :: rat
  tot_total :: rat

definition calculateItemTotal :: "jsval \<Rightarrow> jsval \<Rightarrow> rat" where
  "calculateItemTotal quantity price =
     (let qty = or_number (parseFloat quantity) 0;
          prc = or_number (parseFloat price) 0
      in qty * prc)"

definition calculateTax :: "jsval \<Rightarrow> jsval \<Rightarrow> rat" where
  "calculateTax subtotal taxRate =
     (let sub = or_number (parseFloat subtotal) 0;
          rate = or_number (parseFloat taxRate) 0
      in (sub * rate) / 100)"

definition calculateTotal :: "jsval \<Rightarrow> jsval \<Rightarrow> jsval \<Rightarrow> totals" where
  "calculateTotal subtotal taxRate discount =
     (let sub = or_number (parseFloat subtotal) 0;
          tax = calculateTax (Number (Num sub)) taxRate;
          disc = or_number (parseFloat discount) 0;
          total = sub + tax - disc
      in \<lparr>tot_subtotal = sub, tot_tax = tax, tot_discount = disc, tot_total = max 0 total\<rparr>)"

section \<open>state.js, version 2.0\<close>

record party =
  name :: string
  phone :: string
  address :: string

record item =
  item_id :: int
  item_description :: string
  item_quantity :: rat
  item_price :: rat
  item_total :: rat

text \<open>The single in-memory invoice record \<open>state\<close>.\<close>

record state =
  business :: party
  client :: party
  items :: "item list"
  taxRate :: rat
  discount :: rat
  subtotal :: rat
  total :: rat
  invoiceNumber :: string
  issueDate :: string
  dueDate :: string
  nextItemId :: int

text \<open>
  An invoice object as it is handed to \<open>saveInvoice\<close>, kept in the stored array and handed
  to \<open>loadState\<close>: any field may be absent.
\<close>

record invoice =
  inv_business :: "party option"
  inv_client :: "party option"
  inv_items :: "item list option"
  inv_taxRate :: "rat option"
  inv_discount :: "rat option"
  inv_subtotal :: "rat option"
  inv_total :: "rat option"
  inv_invoiceNumber :: "string option"
  inv_issueDate :: "string option"
  inv_dueDate :: "string option"
  inv_nextItemId :: "int option"
  inv_savedAt :: "string option"

text \<open>The argument of \<open>addItem\<close> and the \<open>updates\<close> argument of \<open>updateItem\<close>.\<close>

record itemInput =
  in_description :: "string option"
  in_quantity :: jsval
  in_price :: jsval

definition addItem :: "itemInput \<Rightarrow> state \<Rightarrow> item \<times> state" where
  "addItem item st =
     (let newItem = \<lparr>item_id = nextItemId st,
                     item_description = or_string (in_description item) [],
                     item_quantity = or_number (parseFloat (in_quantity item)) 1,
                     item_price = or_number (parseFloat (in_price item)) 0,
                     item_total = 0\<rparr>;
          st1 = st\<lparr>nextItemId := nextItemId st + 1\<rparr>;
          newItem = newItem\<lparr>item_total := item_quantity newItem * item_price newItem\<rparr>
      in (newItem, st1\<lparr>items := items st1 @ [newItem]\<rparr>))"

text \<open>The body of \<open>if (item) { ... }\<close> in \<open>updateItem\<close>, applied to the item found.\<close>

definition applyUpdates :: "itemInput \<Rightarrow> item \<Rightarrow> item" where
  "applyUpdates updates it =
     (let it1 = (case in_description updates of
                   None \<Rightarrow> it
                 | Some d \<Rightarrow> it\<lparr>item_description := d\<rparr>);
          it2 = (if in_quantity updates \<noteq> Undefined
                 then it1\<lparr>item_quantity := or_number (parseFloat (in_quantity updates)) 0\<rparr>
                 else it1);
          it3 = (if in_price updates \<noteq> Undefined
                 then it2\<lparr>item_price := or_number (parseFloat (in_price updates)) 0\<rparr>
                 else it2)
      in it3\<lparr>item_total := item_quantity it3 * item_price it3\<rparr>)"

text \<open>\<open>find\<close> returns the first matching element, which is then changed in place.\<close>

fun updateFirst :: "('a \<Rightarrow> bool) \<Rightarrow> ('a \<Rightarrow> 'a) \<Rightarrow> 'a list \<Rightarrow> 'a list" where
  "updateFirst P f [] = []"
| "updateFirst P f (x # xs) = (if P x then f x # xs else x # updateFirst P f xs)"

definition updateItem :: "int \<Rightarrow> itemInput \<Rightarrow> state \<Rightarrow> state" where
  "updateItem itemId updates st =
     st\<lparr>items := updateFirst (\<lambda>i. item_id i = itemId) (applyUpdates updates) (items st)\<rparr>"

definition removeItem :: "int \<Rightarrow> state \<Rightarrow> state" where
  "removeItem itemId st = st\<lparr>items := filter (\<lambda>it. item_id it \<noteq> itemId) (items st)\<rparr>"

text \<open>
  \<open>loadState\<close>. \<open>Math.max\<close> is only reached under the guard \<open>state.items.length > 0\<close>.
\<close>

definition loadState :: "invoice \<Rightarrow> state \<Rightarrow> state" where
  "loadState invoiceData st =
     (let st1 = st\<lparr>business := or_object (inv_business invoiceData) (business st),
                   client := or_object (inv_client invoiceData) (client st),
                   items := or_object (inv_items invoiceData) [],
                   taxRate := or_field (inv_taxRate invoiceData) 0,
                   discount := or_field (inv_discount invoiceData) 0,
                   subtotal := or_field (inv_subtotal invoiceData) 0,
                   total := or_field (inv_total invoiceData) 0,
                   invoiceNumber := or_string (inv_invoiceNumber invoiceData) (invoiceNumber st),
                   issueDate := or_string (inv_issueDate invoiceData) (issueDate st),
                   dueDate := or_string (inv_dueDate invoiceData) (dueDate st)\<rparr>
      in if length (items st1) > 0
         then st1\<lparr>nextItemId := Max (set (map item_id (items st1))) + 1\<rparr>
         else st1)"

section \<open>storage.js\<close>

text \<open>
  What \<open>localStorage\<close> holds under the storage key: nothing, a text that \<open>JSON.parse\<close>
  rejects, or the text of an array of invoices. \<open>JSON.parse (JSON.stringify xs)\<close> is
  taken to be \<open>xs\<close>. \<open>accepts\<close> tells which arrays \<open>setItem\<close> stores; on the others it
  throws (quota exceeded, storage disabled).
\<close>

datatype stored = NoItem | Unparsable | Json "invoice list"

record localStorage =
  stored_item :: stored
  accepts :: "invoice list \<Rightarrow> bool"

datatype error = TypeError | SyntaxError | InvalidFileFormat | FailedToReadFile | StorageError

definition getAllInvoices :: "localStorage \<Rightarrow> invoice list" where
  "getAllInvoices ls = (case stored_item ls of Json xs \<Rightarrow> xs | NoItem \<Rightarrow> [] | Unparsable \<Rightarrow> [])"

definition setItem :: "invoice list \<Rightarrow> localStorage \<Rightarrow> error + localStorage" where
  "setItem xs ls = (if accepts ls xs then Inr (ls\<lparr>stored_item := Json xs\<rparr>) else Inl StorageError)"

text \<open>\<open>now\<close> is the text of \<open>new Date().toISOString()\<close> at the call.\<close>

definition saveInvoice :: "string \<Rightarrow> invoice \<Rightarrow> localStorage \<Rightarrow> bool \<times> localStorage" where
  "saveInvoice now invoiceData ls =
     (let invoices = getAllInvoices ls;
          invoiceToSave = invoiceData\<lparr>inv_savedAt := Some now\<rparr>;
          existingIndex =
            findIndex (\<lambda>iv. inv_invoiceNumber iv = inv_invoiceNumber invoiceData) invoices;
          invoices1 = (if existingIndex \<noteq> -1
                       then invoices[nat existingIndex := invoiceToSave]
                       else invoices @ [invoiceToSave])
      in case setItem invoices1 ls of
           Inr ls1 \<Rightarrow> (True, ls1)
         | Inl e \<Rightarrow> (False, ls))"

definition getInvoice :: "string option \<Rightarrow> localStorage \<Rightarrow> invoice option" where
  "getInvoice number ls = find (\<lambda>iv. inv_invoiceNumber iv = number) (getAllInvoices ls)"

definition deleteInvoice :: "string option \<Rightarrow> localStorage \<Rightarrow> bool \<times> localStorage" where
  "deleteInvoice number ls =
     (let invoices = getAllInvoices ls;
          filtered = filter (\<lambda>iv. inv_invoiceNumber iv \<noteq> number) invoices
      in case setItem filtered ls of
           Inr ls1 \<Rightarrow> (True, ls1)
         | Inl e \<Rightarrow> (False, ls))"

text \<open>\<open>clearAllInvoices\<close>: \<open>removeItem\<close> leaves nothing under the key.\<close>

definition clearAllInvoices :: "localStorage \<Rightarrow> bool \<times> localStorage" where
  "clearAllInvoices ls = (True, ls\<lparr>stored_item := NoItem\<rparr>)"

text \<open>
  The file given to \<open>importInvoices\<close>: the reader fails, or its text is not JSON, or it
  parses to a value that is not an array, or to an array of invoices.
\<close>

datatype nonArray = JNull | JBool bool | JNumber rat | JString string
  | JObject "(string \<times> string) list"

datatype fileContents = Unreadable | NotJson | NonArray nonArray | JsonArray "invoice list"

text \<open>The \<open>forEach\<close> over the imported array, threading \<open>mergedInvoices\<close>.\<close>

fun mergeInvoices :: "invoice list \<Rightarrow> invoice list \<Rightarrow> invoice list" where
  "mergeInvoices mergedInvoices [] = mergedInvoices"
| "mergeInvoices mergedInvoices (imported # rest) =
     (let existingIndex =
            findIndex (\<lambda>iv. inv_invoiceNumber iv = inv_invoiceNumber imported) mergedInvoices
      in mergeInvoices
           (if existingIndex = -1 then mergedInvoices @ [imported] else mergedInvoices) rest)"

text \<open>The promise resolves with \<open>true\<close> (\<open>Inr True\<close>) or is rejected with an error.\<close>

definition importInvoices :: "fileContents \<Rightarrow> localStorage \<Rightarrow> (error + bool) \<times> localStorage" where
  "importInvoices file ls =
     (case file of
        Unreadable \<Rightarrow> (Inl FailedToReadFile, ls)
      | NotJson \<Rightarrow> (Inl SyntaxError, ls)
      | NonArray v \<Rightarrow> (Inl InvalidFileFormat, ls)
      | JsonArray importedInvoices \<Rightarrow>
          (let existingInvoices = getAllInvoices ls;
               mergedInvoices = mergeInvoices existingInvoices importedInvoices
           in case setItem mergedInvoices ls of
                Inr ls1 \<Rightarrow> (Inr True, ls1)
              | Inl e \<Rightarrow> (Inl e, ls)))"

text \<open>
  The stores that the program can have written: one that holds no invoice, and whatever
  \<open>saveInvoice\<close>, \<open>deleteInvoice\<close>, \<open>importInvoices\<close> and \<open>clearAllInvoices\<close> leave behind,
  whether they succeed or fail.
\<close>

inductive reachable :: "localStorage \<Rightarrow> bool" where
  reachable_empty: "getAllInvoices ls = [] \<Longrightarrow> reachable ls"
| reachable_save: "reachable ls \<Longrightarrow> reachable (snd (saveInvoice now invoiceData ls))"
| reachable_delete: "reachable ls \<Longrightarrow> reachable (snd (deleteInvoice number ls))"
| reachable_import: "reachable ls \<Longrightarrow> reachable (snd (importInvoices contents ls))"
| reachable_clear: "reachable ls \<Longrightarrow> reachable (snd (clearAllInvoices ls))"

section \<open>Invoice numbering (state.js)\<close>

definition isDigit :: "char \<Rightarrow> bool" where
  "isDigit c = (48 \<le> (of_char c :: nat) \<and> (of_char c :: nat) \<le> 57)"

definition digitVal :: "char \<Rightarrow> nat" where
  "digitVal c = of_char c - 48"

definition digitChar :: "nat \<Rightarrow> char" where
  "digitChar d = char_of (48 + d)"

text \<open>
  \<open>s.match(/INV-(\d+)/)\<close>: the leftmost place where \<open>INV-\<close> is followed by a digit; the
  group is the longest run of digits there.
\<close>

fun matchINV :: "string \<Rightarrow> string option" where
  "matchINV [] = None"
| "matchINV (c # cs) =
     (let ds = takeWhile isDigit (drop 4 (c # cs))
      in if take 4 (c # cs) = ''INV-'' \<and> ds \<noteq> [] then Some ds else matchINV cs)"

text \<open>\<open>parseInt\<close> of a run of decimal digits, and \<open>String\<close> of a natural number.\<close>

definition parseInt :: "string \<Rightarrow> nat" where
  "parseInt ds = foldl (\<lambda>n c. 10 * n + digitVal c) 0 ds"

fun toString :: "nat \<Rightarrow> string" where
  "toString n = (if n < 10 then [digitChar n] else toString (n div 10) @ [digitChar (n mod 10)])"

declare toString.simps [simp del]

definition padStart :: "nat \<Rightarrow> char \<Rightarrow> string \<Rightarrow> string" where
  "padStart n c s = replicate (n - length s) c @ s"

text \<open>
  The callback of \<open>existingInvoices.map\<close>, from the invoice number on: the number
  after the match, or \<open>0\<close> without a match.
\<close>

definition extractNumber :: "string \<Rightarrow> nat" where
  "extractNumber s = (case matchINV s of Some ds \<Rightarrow> parseInt ds | None \<Rightarrow> 0)"

text \<open>\<open>map\<close> with a callback that may throw: the first exception ends it.\<close>

fun mapThrowing :: "('a \<Rightarrow> error + 'b) \<Rightarrow> 'a list \<Rightarrow> error + 'b list" where
  "mapThrowing f [] = Inr []"
| "mapThrowing f (x # xs) =
     (case f x of
        Inl e \<Rightarrow> Inl e
      | Inr y \<Rightarrow> (case mapThrowing f xs of Inl e \<Rightarrow> Inl e | Inr ys \<Rightarrow> Inr (y # ys)))"

text \<open>
  \<open>generateInvoiceNumber\<close>, with storage.js loaded (\<open>typeof getAllInvoices\<close> is
  \<open>'function'\<close>). Calling \<open>match\<close> on an absent invoice number throws a \<open>TypeError\<close>.
  \<open>Math.max\<close> is only reached on a non-empty array.
\<close>

definition generateInvoiceNumber :: "localStorage \<Rightarrow> error + string" where
  "generateInvoiceNumber ls =
     (let existingInvoices = getAllInvoices ls
      in if length existingInvoices > 0
         then (case mapThrowing
                      (\<lambda>iv. case inv_invoiceNumber iv of
                               None \<Rightarrow> Inl TypeError
                             | Some s \<Rightarrow> Inr (extractNumber s))
                      existingInvoices of
                 Inl e \<Rightarrow> Inl e
               | Inr numbers \<Rightarrow>
                   (let maxNumber = Max (set numbers);
                        nextNumber = maxNumber + 1
                    in Inr (''INV-'' @ padStart 3 (CHR ''0'') (toString nextNumber))))
         else Inr ''INV-001'')"

section \<open>Values used in the examples\<close>

text \<open>
  The \<open>state\<close> object as state.js creates it, on the day \<open>today\<close>; an object with no
  fields; an invoice object that has only its number; the blank line item with a given
  id; a store with room for every write.
\<close>

definition initialState :: "string \<Rightarrow> state" where
  "initialState today =
     \<lparr>business = \<lparr>name = [], phone = [], address = []\<rparr>,
      client = \<lparr>name = [], phone = [], address = []\<rparr>,
      items = [], taxRate = 0, discount = 0, subtotal = 0, total = 0,
      invoiceNumber = ''INV-001'', issueDate = today, dueDate = [], nextItemId = 1\<rparr>"

definition emptyObject :: invoice where
  "emptyObject =
     \<lparr>inv_business = None, inv_client = None, inv_items = None, inv_taxRate = None,
      inv_discount = None, inv_subtotal = None, inv_total = None, inv_invoiceNumber = None,
      inv_issueDate = None, inv_dueDate = None, inv_nextItemId = None, inv_savedAt = None\<rparr>"

definition numbered :: "string \<Rightarrow> invoice" where
  "numbered n = emptyObject\<lparr>inv_invoiceNumber := Some n\<rparr>"

definition blankItem :: "int \<Rightarrow> item" where
  "blankItem i =
     \<lparr>item_id = i, item_description = [], item_quantity = 1, item_price = 0, item_total = 0\<rparr>"

definition storing :: "invoice list \<Rightarrow> localStorage" where
  "storing xs = \<lparr>stored_item = Json xs, accepts = (\<lambda>ys. True)\<rparr>"

section \<open>The calculator\<close>

text \<open>
  C1. For every subtotal \<open>s \<ge> 0\<close>, rate \<open>r \<ge> 0\<close> and discount \<open>d\<close>, the \<open>total\<close> field of
  \<open>calculateTotal(s, r, d)\<close> is \<open>max(0, s + s*r/100 - d)\<close>, so it is never negative
  however large the discount; and \<open>calculateTotal(100, 10, 5)\<close> is
  \<open>{subtotal: 100, tax: 10, discount: 5, total: 105}\<close>.
\<close>

theorem calculateTotal_total:
  "0 \<le> s \<Longrightarrow> 0 \<le> r \<Longrightarrow>
   tot_total (calculateTotal (Number (Num s)) (Number (Num r)) (Number (Num d)))
     = max 0 (s + s * r / 100 - d)
   \<and> 0 \<le> tot_total (calculateTotal (Number (Num s)) (Number (Num r)) (Number (Num d)))
   \<and> calculateTotal (Number (Num 100)) (Number (Num 10)) (Number (Num 5))
     = \<lparr>tot_subtotal = 100, tot_tax = 10, tot_discount = 5, tot_total = 105\<rparr>"
  by (simp add: calculateTotal_def calculateTax_def Let_def)

theorem calculateTotal_total_witness:
  "tot_total (calculateTotal (Number (Num 10)) (Number (Num 0)) (Number (Num 1000))) = 0
   \<and> tot_total (calculateTotal (Number (Num 200)) (Number (Num 15)) (Number (Num 30))) = 200"
  using calculateTotal_total [of 10 0 1000] calculateTotal_total [of 200 15 30]
  by simp

section \<open>Searching an array\<close>

lemma findIndex_ge: "-1 \<le> findIndex P xs"
  by (induction xs) (auto simp: Let_def)

lemma findIndex_none: "(findIndex P xs = -1) = (\<forall>x\<in>set xs. \<not> P x)"
proof (induction xs)
  case Nil
  show ?case by simp
next
  case (Cons x xs)
  have "-1 \<le> findIndex P xs" by (rule findIndex_ge)
  then have "findIndex P xs + 1 \<noteq> -1" by arith
  with Cons show ?case by (auto simp: Let_def)
qed

lemma findIndex_less: "findIndex P xs \<noteq> -1 \<Longrightarrow> nat (findIndex P xs) < length xs"
proof (induction xs)
  case Nil
  then show ?case by simp
next
  case (Cons x xs)
  have "-1 \<le> findIndex P xs" by (rule findIndex_ge)
  with Cons show ?case by (auto simp: Let_def split: if_splits)
qed

lemma findIndex_hit: "findIndex P xs \<noteq> -1 \<Longrightarrow> P (xs ! nat (findIndex P xs))"
proof (induction xs)
  case Nil
  then show ?case by simp
next
  case (Cons x xs)
  have ge: "-1 \<le> findIndex P xs" by (rule findIndex_ge)
  show ?case
  proof (cases "P x")
    case True
    then show ?thesis by simp
  next
    case False
    with Cons.prems have ne: "findIndex P xs \<noteq> -1" by (auto simp: Let_def split: if_splits)
    with ge have "nat (findIndex P xs + 1) = Suc (nat (findIndex P xs))" by arith
    with False ne Cons.IH show ?thesis by (simp add: Let_def)
  qed
qed

lemma findIndex_first:
  "findIndex P xs \<noteq> -1 \<Longrightarrow> j < nat (findIndex P xs) \<Longrightarrow> \<not> P (xs ! j)"
proof (induction xs arbitrary: j)
  case Nil
  then show ?case by simp
next
  case (Cons x xs)
  have ge: "-1 \<le> findIndex P xs" by (rule findIndex_ge)
  show ?case
  proof (cases "P x")
    case True
    with Cons.prems show ?thesis by simp
  next
    case False
    with Cons.prems have ne: "findIndex P xs \<noteq> -1" by (auto simp: Let_def split: if_splits)
    with ge have suc: "nat (findIndex P xs + 1) = Suc (nat (findIndex P xs))" by arith
    show ?thesis
    proof (cases j)
      case 0
      with False show ?thesis by simp
    next
      case (Suc k)
      with Cons.prems False ne suc have "k < nat (findIndex P xs)" by (simp add: Let_def)
      with Cons.IH ne Suc show ?thesis by simp
    qed
  qed
qed

lemma find_first_index:
  "i < length xs \<Longrightarrow> P (xs ! i) \<Longrightarrow> (\<And>j. j < i \<Longrightarrow> \<not> P (xs ! j)) \<Longrightarrow> find P xs = Some (xs ! i)"
proof (induction xs arbitrary: i)
  case Nil
  then show ?case by simp
next
  case (Cons x xs)
  show ?case
  proof (cases i)
    case 0
    with Cons.prems show ?thesis by simp
  next
    case (Suc k)
    with Cons.prems(3) [of 0] have nx: "\<not> P x" by simp
    have "\<And>j. j < k \<Longrightarrow> \<not> P (xs ! j)"
      using Cons.prems(3) Suc by fastforce
    with Cons.IH [of k] Cons.prems(1,2) Suc have "find P xs = Some (xs ! k)" by simp
    with nx Suc show ?thesis by simp
  qed
qed

lemma find_replaced:
  assumes "findIndex P xs \<noteq> -1" and "P v"
  shows "find P (xs[nat (findIndex P xs) := v]) = Some v"
proof -
  let ?i = "nat (findIndex P xs)"
  let ?ys = "xs[?i := v]"
  from assms(1) have lt: "?i < length xs" by (rule findIndex_less)
  have "find P ?ys = Some (?ys ! ?i)"
  proof (rule find_first_index)
    show "?i < length ?ys" using lt by simp
    show "P (?ys ! ?i)" using lt assms(2) by simp
    fix j assume "j < ?i"
    with findIndex_first [OF assms(1)] show "\<not> P (?ys ! j)" by simp
  qed
  with lt show ?thesis by simp
qed

lemma find_snoc_fresh:
  "\<forall>x\<in>set xs. \<not> P x \<Longrightarrow> P v \<Longrightarrow> find P (xs @ [v]) = Some v"
  by (induction xs) auto

lemma find_appended:
  "findIndex P xs = -1 \<Longrightarrow> P v \<Longrightarrow> find P (xs @ [v]) = Some v"
  by (simp add: findIndex_none find_snoc_fresh)

lemma find_append_kept: "find P m = Some a \<Longrightarrow> find P (m @ ys) = Some a"
  by (induction m) (auto split: if_splits)

lemma find_prefix_kept:
  "prefix m xs \<Longrightarrow> find P m = Some a \<Longrightarrow> find P xs = Some a"
  by (auto simp: prefix_def find_append_kept)

lemma find_filter_conv:
  "find P xs = (case filter P xs of [] \<Rightarrow> None | y # ys \<Rightarrow> Some y)"
  by (induction xs) auto

lemma find_member_Some: "x \<in> set xs \<Longrightarrow> P x \<Longrightarrow> \<exists>a. find P xs = Some a"
  by (induction xs) auto

lemma find_Some_member: "find P xs = Some a \<Longrightarrow> a \<in> set xs \<and> P a"
  by (induction xs) (auto split: if_splits)

section \<open>Saving and reading back\<close>

lemma getAllInvoices_setItem:
  "setItem xs ls = Inr ls1 \<Longrightarrow> getAllInvoices ls1 = xs"
  by (auto simp: setItem_def getAllInvoices_def split: if_splits)

lemma saveInvoice_result:
  assumes "fst (saveInvoice now iv ls)"
  shows "getAllInvoices (snd (saveInvoice now iv ls)) =
     (let xs = getAllInvoices ls;
          i = findIndex (\<lambda>x. inv_invoiceNumber x = inv_invoiceNumber iv) xs
      in if i \<noteq> -1 then xs[nat i := iv\<lparr>inv_savedAt := Some now\<rparr>]
         else xs @ [iv\<lparr>inv_savedAt := Some now\<rparr>])"
  using assms
  by (auto simp: saveInvoice_def Let_def getAllInvoices_setItem split: sum.splits)

lemma saveInvoice_failed:
  "\<not> fst (saveInvoice now iv ls) \<Longrightarrow> snd (saveInvoice now iv ls) = ls"
  by (auto simp: saveInvoice_def Let_def split: sum.splits)

text \<open>
  C2. For every invoice and every stored collection, a \<open>saveInvoice(invoice)\<close> that
  reports success followed by \<open>getInvoice(invoice.invoiceNumber)\<close> returns the saved
  invoice with its \<open>savedAt\<close> field. Saving under a number that is already stored replaces
  the entry and leaves the length of \<open>getAllInvoices()\<close> as it was (a number not yet
  stored adds one entry), so a second save of the same number does not change the length.
\<close>

theorem save_then_get:
  assumes "fst (saveInvoice now iv ls)"
  shows "getInvoice (inv_invoiceNumber iv) (snd (saveInvoice now iv ls))
           = Some (iv\<lparr>inv_savedAt := Some now\<rparr>)
       \<and> ((\<exists>x \<in> set (getAllInvoices ls). inv_invoiceNumber x = inv_invoiceNumber iv) \<longrightarrow>
            length (getAllInvoices (snd (saveInvoice now iv ls))) = length (getAllInvoices ls))
       \<and> ((\<forall>x \<in> set (getAllInvoices ls). inv_invoiceNumber x \<noteq> inv_invoiceNumber iv) \<longrightarrow>
            length (getAllInvoices (snd (saveInvoice now iv ls))) = length (getAllInvoices ls) + 1)
       \<and> (fst (saveInvoice later iv2 (snd (saveInvoice now iv ls)))
            \<and> inv_invoiceNumber iv2 = inv_invoiceNumber iv \<longrightarrow>
            length (getAllInvoices (snd (saveInvoice later iv2 (snd (saveInvoice now iv ls)))))
              = length (getAllInvoices (snd (saveInvoice now iv ls))))"
proof -
  let ?P = "\<lambda>x. inv_invoiceNumber x = inv_invoiceNumber iv"
  let ?v = "iv\<lparr>inv_savedAt := Some now\<rparr>"
  let ?xs = "getAllInvoices ls"
  let ?ls1 = "snd (saveInvoice now iv ls)"
  have Pv: "?P ?v" by simp
  have first: "find ?P (getAllInvoices ?ls1) = Some ?v
      \<and> ((\<exists>x\<in>set ?xs. ?P x) \<longrightarrow> length (getAllInvoices ?ls1) = length ?xs)
      \<and> ((\<forall>x\<in>set ?xs. \<not> ?P x) \<longrightarrow> length (getAllInvoices ?ls1) = length ?xs + 1)"
  proof (cases "findIndex ?P ?xs = -1")
    case True
    with assms have "getAllInvoices ?ls1 = ?xs @ [?v]"
      by (simp add: saveInvoice_result Let_def)
    moreover from True have "\<forall>x\<in>set ?xs. \<not> ?P x" by (simp add: findIndex_none)
    ultimately show ?thesis
      using find_appended [OF True Pv] by auto
  next
    case False
    with assms have eq: "getAllInvoices ?ls1 = ?xs[nat (findIndex ?P ?xs) := ?v]"
      by (simp add: saveInvoice_result Let_def)
    from False have "\<exists>x\<in>set ?xs. ?P x" by (simp add: findIndex_none)
    with eq find_replaced [OF False Pv] show ?thesis by auto
  qed
  have second: "fst (saveInvoice later iv2 ?ls1) \<and> inv_invoiceNumber iv2 = inv_invoiceNumber iv
      \<longrightarrow> length (getAllInvoices (snd (saveInvoice later iv2 ?ls1)))
            = length (getAllInvoices ?ls1)"
  proof
    assume h: "fst (saveInvoice later iv2 ?ls1) \<and> inv_invoiceNumber iv2 = inv_invoiceNumber iv"
    from first have "find ?P (getAllInvoices ?ls1) = Some ?v" by (rule conjunct1)
    then have "?v \<in> set (getAllInvoices ?ls1)" by (rule find_Some_member [THEN conjunct1])
    moreover have "inv_invoiceNumber ?v = inv_invoiceNumber iv" by simp
    ultimately have "\<exists>x\<in>set (getAllInvoices ?ls1). inv_invoiceNumber x = inv_invoiceNumber iv"
      by (rule rev_bexI)
    with h have "findIndex (\<lambda>x. inv_invoiceNumber x = inv_invoiceNumber iv2) (getAllInvoices ?ls1)
        \<noteq> -1"
      by (simp add: findIndex_none)
    with h show "length (getAllInvoices (snd (saveInvoice later iv2 ?ls1)))
            = length (getAllInvoices ?ls1)"
      by (simp add: saveInvoice_result Let_def)
  qed
  from first second show ?thesis by (simp add: getInvoice_def)
qed

theorem save_then_get_witness:
  "fst (saveInvoice ''2024-03-01T09:00:00.000Z'' (numbered ''INV-002'') (storing [numbered ''INV-001'']))
   \<and> getInvoice (Some ''INV-002'')
        (snd (saveInvoice ''2024-03-01T09:00:00.000Z'' (numbered ''INV-002'')
               (storing [numbered ''INV-001''])))
      = Some ((numbered ''INV-002'')\<lparr>inv_savedAt := Some ''2024-03-01T09:00:00.000Z''\<rparr>)
   \<and> length (getAllInvoices
        (snd (saveInvoice ''2024-03-01T09:00:00.000Z'' (numbered ''INV-002'')
               (storing [numbered ''INV-001''])))) = 2
   \<and> length (getAllInvoices
        (snd (saveInvoice ''2024-03-02T09:00:00.000Z'' (numbered ''INV-002'')
          (snd (saveInvoice ''2024-03-01T09:00:00.000Z'' (numbered ''INV-002'')
                 (storing [numbered ''INV-001'']))))))  = 2"
proof -
  have ok: "fst (saveInvoice ''2024-03-01T09:00:00.000Z'' (numbered ''INV-002'')
      (storing [numbered ''INV-001'']))"
    by (simp add: saveInvoice_def setItem_def getAllInvoices_def storing_def numbered_def
        emptyObject_def)
  have ok2: "fst (saveInvoice ''2024-03-02T09:00:00.000Z'' (numbered ''INV-002'')
      (snd (saveInvoice ''2024-03-01T09:00:00.000Z'' (numbered ''INV-002'')
             (storing [numbered ''INV-001'']))))"
    by (simp add: saveInvoice_def setItem_def getAllInvoices_def storing_def numbered_def
        emptyObject_def)
  have old: "getAllInvoices (storing [numbered ''INV-001'']) = [numbered ''INV-001'']"
    by (simp add: getAllInvoices_def storing_def)
  have fresh: "\<forall>x\<in>set [numbered ''INV-001''].
      inv_invoiceNumber x \<noteq> inv_invoiceNumber (numbered ''INV-002'')"
    by (simp add: numbered_def emptyObject_def)
  have num: "inv_invoiceNumber (numbered ''INV-002'') = Some ''INV-002''"
    by (simp add: numbered_def)
  from save_then_get [OF ok, of "''2024-03-02T09:00:00.000Z''" "numbered ''INV-002''"]
    ok ok2 old fresh num
  show ?thesis by simp
qed

section \<open>Deleting\<close>

lemma deleteInvoice_result:
  "fst (deleteInvoice n ls) \<Longrightarrow>
   getAllInvoices (snd (deleteInvoice n ls)) =
     filter (\<lambda>x. inv_invoiceNumber x \<noteq> n) (getAllInvoices ls)"
  by (auto simp: deleteInvoice_def Let_def getAllInvoices_setItem split: sum.splits)

lemma deleteInvoice_failed:
  "\<not> fst (deleteInvoice n ls) \<Longrightarrow> snd (deleteInvoice n ls) = ls"
  by (auto simp: deleteInvoice_def Let_def split: sum.splits)

lemma filter_absent: "\<forall>x\<in>set xs. f x \<noteq> n \<Longrightarrow> filter (\<lambda>x. f x \<noteq> n) xs = xs"
  by (induction xs) auto

lemma length_filter_distinct_key:
  "distinct (map f xs) \<Longrightarrow> \<exists>x\<in>set xs. f x = n \<Longrightarrow>
   Suc (length (filter (\<lambda>x. f x \<noteq> n) xs)) = length xs"
proof (induction xs)
  case Nil
  then show ?case by simp
next
  case (Cons x xs)
  show ?case
  proof (cases "f x = n")
    case True
    from Cons.prems(1) have "f x \<notin> f ` set xs" by simp
    with True have "\<forall>y\<in>set xs. f y \<noteq> n" by blast
    then have "filter (\<lambda>x. f x \<noteq> n) xs = xs" by (rule filter_absent)
    with True show ?thesis by simp
  next
    case False
    with Cons show ?thesis by auto
  qed
qed

lemma find_filter_removed: "find (\<lambda>x. f x = n) (filter (\<lambda>x. f x \<noteq> n) xs) = None"
  by (induction xs) auto

lemma length_filter_split:
  "length (filter (\<lambda>x. f x \<noteq> n) xs) + length (filter (\<lambda>x. f x = n) xs) = length xs"
  by (induction xs) auto

section \<open>The stored numbers stay pairwise distinct\<close>

text \<open>
  \<open>saveInvoice\<close> and \<open>deleteInvoice\<close> keep the stored invoice numbers pairwise distinct
  (so does \<open>importInvoices\<close>, below).
\<close>

lemma map_update_same_key:
  "i < length xs \<Longrightarrow> f v = f (xs ! i) \<Longrightarrow> map f (xs[i := v]) = map f xs"
  by (simp add: map_update list_update_same_conv)

lemma saveInvoice_distinct:
  assumes "distinct (map inv_invoiceNumber (getAllInvoices ls))"
  shows "distinct (map inv_invoiceNumber (getAllInvoices (snd (saveInvoice now iv ls))))"
proof (cases "fst (saveInvoice now iv ls)")
  case False
  with assms show ?thesis by (simp add: saveInvoice_failed)
next
  case True
  let ?P = "\<lambda>x. inv_invoiceNumber x = inv_invoiceNumber iv"
  let ?v = "iv\<lparr>inv_savedAt := Some now\<rparr>"
  let ?xs = "getAllInvoices ls"
  show ?thesis
  proof (cases "findIndex ?P ?xs = -1")
    case none: True
    then have "inv_invoiceNumber iv \<notin> inv_invoiceNumber ` set ?xs"
      by (auto simp: findIndex_none)
    with True none assms show ?thesis by (simp add: saveInvoice_result Let_def)
  next
    case some: False
    have "map inv_invoiceNumber (?xs[nat (findIndex ?P ?xs) := ?v]) = map inv_invoiceNumber ?xs"
      using findIndex_less [OF some] findIndex_hit [OF some]
      by (intro map_update_same_key) simp_all
    with True some assms show ?thesis by (simp add: saveInvoice_result Let_def)
  qed
qed

lemma deleteInvoice_distinct:
  assumes "distinct (map inv_invoiceNumber (getAllInvoices ls))"
  shows "distinct (map inv_invoiceNumber (getAllInvoices (snd (deleteInvoice n ls))))"
proof (cases "fst (deleteInvoice n ls)")
  case True
  with assms show ?thesis by (simp add: deleteInvoice_result distinct_map_filter)
next
  case False
  with assms show ?thesis by (simp add: deleteInvoice_failed)
qed


section \<open>A store that accepts every write\<close>

text \<open>When \<open>setItem\<close> does not throw, the three writers report success.\<close>

lemma saveInvoice_succeeds: "\<forall>xs. accepts ls xs \<Longrightarrow> fst (saveInvoice now iv ls)"
  by (simp add: saveInvoice_def setItem_def Let_def)

lemma deleteInvoice_succeeds: "\<forall>xs. accepts ls xs \<Longrightarrow> fst (deleteInvoice n ls)"
  by (simp add: deleteInvoice_def setItem_def Let_def)

lemma importInvoices_succeeds:
  "\<forall>xs. accepts ls xs \<Longrightarrow> fst (importInvoices (JsonArray imp) ls) = Inr True"
  by (simp add: importInvoices_def setItem_def Let_def)

lemma getAllInvoices_storing: "getAllInvoices (storing xs) = xs"
  by (simp add: getAllInvoices_def storing_def)

lemma saveInvoice_storing: "fst (saveInvoice now iv (storing xs))"
  by (simp add: saveInvoice_def setItem_def storing_def Let_def)

lemma deleteInvoice_storing: "fst (deleteInvoice n (storing xs))"
  by (simp add: deleteInvoice_def setItem_def storing_def Let_def)

lemma importInvoices_storing: "fst (importInvoices (JsonArray imp) (storing xs)) = Inr True"
  by (simp add: importInvoices_def setItem_def storing_def Let_def)

section \<open>Positions and order in the stored array\<close>

text \<open>
  C9. \<open>saveInvoice\<close> of an invoice whose number is already stored puts the new entry at
  the position of the (first) stored entry with that number and leaves every other entry,
  and so the order of the array, as it was; \<open>deleteInvoice\<close> keeps the remaining entries
  in their order.
\<close>

theorem save_delete_keep_order:
  "(fst (saveInvoice now iv ls)
      \<and> (\<exists>x\<in>set (getAllInvoices ls). inv_invoiceNumber x = inv_invoiceNumber iv) \<longrightarrow>
      (\<exists>i<length (getAllInvoices ls).
          inv_invoiceNumber (getAllInvoices ls ! i) = inv_invoiceNumber iv
          \<and> (\<forall>j<i. inv_invoiceNumber (getAllInvoices ls ! j) \<noteq> inv_invoiceNumber iv)
          \<and> getAllInvoices (snd (saveInvoice now iv ls))
               = (getAllInvoices ls)[i := iv\<lparr>inv_savedAt := Some now\<rparr>]))
   \<and> subseq (getAllInvoices (snd (deleteInvoice n ls))) (getAllInvoices ls)
   \<and> (fst (deleteInvoice n ls) \<longrightarrow>
        getAllInvoices (snd (deleteInvoice n ls))
          = filter (\<lambda>x. inv_invoiceNumber x \<noteq> n) (getAllInvoices ls))"
proof (intro conjI impI)
  let ?P = "\<lambda>x. inv_invoiceNumber x = inv_invoiceNumber iv"
  let ?xs = "getAllInvoices ls"
  assume h: "fst (saveInvoice now iv ls) \<and> (\<exists>x\<in>set ?xs. ?P x)"
  then have found: "findIndex ?P ?xs \<noteq> -1" by (simp add: findIndex_none)
  let ?i = "nat (findIndex ?P ?xs)"
  have "?i < length ?xs" using found by (rule findIndex_less)
  moreover have "?P (?xs ! ?i)" using found by (rule findIndex_hit)
  moreover have "\<forall>j<?i. \<not> ?P (?xs ! j)" using findIndex_first [OF found] by blast
  moreover have "getAllInvoices (snd (saveInvoice now iv ls))
      = ?xs[?i := iv\<lparr>inv_savedAt := Some now\<rparr>]"
    using h found by (simp add: saveInvoice_result Let_def)
  ultimately show "\<exists>i<length ?xs. ?P (?xs ! i) \<and> (\<forall>j<i. \<not> ?P (?xs ! j))
      \<and> getAllInvoices (snd (saveInvoice now iv ls)) = ?xs[i := iv\<lparr>inv_savedAt := Some now\<rparr>]"
    by blast
next
  show "subseq (getAllInvoices (snd (deleteInvoice n ls))) (getAllInvoices ls)"
  proof (cases "fst (deleteInvoice n ls)")
    case True
    then show ?thesis by (simp add: deleteInvoice_result)
  next
    case False
    then show ?thesis by (simp add: deleteInvoice_failed)
  qed
next
  assume "fst (deleteInvoice n ls)"
  then show "getAllInvoices (snd (deleteInvoice n ls))
          = filter (\<lambda>x. inv_invoiceNumber x \<noteq> n) (getAllInvoices ls)"
    by (rule deleteInvoice_result)
qed

theorem save_delete_keep_order_witness:
  "getAllInvoices (snd (saveInvoice ''2024-03-01T09:00:00.000Z''
        ((numbered ''INV-002'')\<lparr>inv_taxRate := Some 5\<rparr>)
        (storing [numbered ''INV-001'', numbered ''INV-002'', numbered ''INV-003''])))
     = [numbered ''INV-001'',
        (numbered ''INV-002'')\<lparr>inv_taxRate := Some 5,
                                inv_savedAt := Some ''2024-03-01T09:00:00.000Z''\<rparr>,
        numbered ''INV-003'']
   \<and> getAllInvoices (snd (deleteInvoice (Some ''INV-002'')
        (storing [numbered ''INV-001'', numbered ''INV-002'', numbered ''INV-003''])))
     = [numbered ''INV-001'', numbered ''INV-003'']"
proof -
  let ?ls = "storing [numbered ''INV-001'', numbered ''INV-002'', numbered ''INV-003'']"
  let ?iv = "(numbered ''INV-002'')\<lparr>inv_taxRate := Some 5\<rparr>"
  let ?now = "''2024-03-01T09:00:00.000Z''"
  have old: "getAllInvoices ?ls = [numbered ''INV-001'', numbered ''INV-002'', numbered ''INV-003'']"
    by (rule getAllInvoices_storing)
  have saved: "fst (saveInvoice ?now ?iv ?ls)"
    by (rule saveInvoice_storing)
  have deleted: "fst (deleteInvoice (Some ''INV-002'') ?ls)"
    by (rule deleteInvoice_storing)
  have present: "\<exists>x\<in>set (getAllInvoices ?ls). inv_invoiceNumber x = inv_invoiceNumber ?iv"
    unfolding old by (simp add: numbered_def)
  from save_delete_keep_order [where ls = ?ls and iv = ?iv and now = ?now
      and n = "Some ''INV-002''"] saved present deleted
  obtain i where i: "i < length (getAllInvoices ?ls)"
      "inv_invoiceNumber (getAllInvoices ?ls ! i) = inv_invoiceNumber ?iv"
      "getAllInvoices (snd (saveInvoice ?now ?iv ?ls))
         = (getAllInvoices ?ls)[i := ?iv\<lparr>inv_savedAt := Some ?now\<rparr>]"
    and del: "getAllInvoices (snd (deleteInvoice (Some ''INV-002'') ?ls))
         = filter (\<lambda>x. inv_invoiceNumber x \<noteq> Some ''INV-002'') (getAllInvoices ?ls)"
    by blast
  from i(1) have "i = 0 \<or> i = 1 \<or> i = 2" unfolding old by auto
  with i(2) have "i = 1" unfolding old by (auto simp: numbered_def)
  with i(3) have "getAllInvoices (snd (saveInvoice ?now ?iv ?ls))
      = [numbered ''INV-001'', ?iv\<lparr>inv_savedAt := Some ?now\<rparr>, numbered ''INV-003'']"
    unfolding old by simp
  moreover from del have "getAllInvoices (snd (deleteInvoice (Some ''INV-002'') ?ls))
      = [numbered ''INV-001'', numbered ''INV-003'']"
    unfolding old by (simp add: numbered_def)
  ultimately show ?thesis by simp
qed

section \<open>Importing\<close>

lemma mergeInvoices_Cons:
  "mergeInvoices m (x # rest) =
     mergeInvoices (if \<forall>y\<in>set m. inv_invoiceNumber y \<noteq> inv_invoiceNumber x then m @ [x] else m) rest"
  by (simp add: Let_def findIndex_none)

lemma mergeInvoices_prefix: "prefix m (mergeInvoices m imp)"
proof (induction imp arbitrary: m)
  case Nil
  show ?case by simp
next
  case (Cons x rest)
  let ?m1 = "if \<forall>y\<in>set m. inv_invoiceNumber y \<noteq> inv_invoiceNumber x then m @ [x] else m"
  have "prefix m ?m1" by simp
  also have "prefix ?m1 (mergeInvoices ?m1 rest)" by (rule Cons.IH)
  finally show ?case by (simp only: mergeInvoices_Cons)
qed

lemma mergeInvoices_fresh:
  "\<forall>y\<in>set m. inv_invoiceNumber y \<noteq> inv_invoiceNumber x \<Longrightarrow>
   mergeInvoices m (x # rest) = mergeInvoices (m @ [x]) rest"
  by (simp add: Let_def findIndex_none)

lemma mergeInvoices_known:
  "\<exists>y\<in>set m. inv_invoiceNumber y = inv_invoiceNumber x \<Longrightarrow>
   mergeInvoices m (x # rest) = mergeInvoices m rest"
  by (auto simp: Let_def findIndex_none)

lemma mergeInvoices_set: "set (mergeInvoices m imp) \<subseteq> set m \<union> set imp"
proof (induction imp arbitrary: m)
  case Nil
  show ?case by simp
next
  case (Cons x rest)
  show ?case
  proof (cases "\<forall>y\<in>set m. inv_invoiceNumber y \<noteq> inv_invoiceNumber x")
    case True
    have "set (mergeInvoices (m @ [x]) rest) \<subseteq> set (m @ [x]) \<union> set rest" by (rule Cons.IH)
    with True show ?thesis by (simp add: mergeInvoices_fresh del: mergeInvoices.simps)
  next
    case False
    have "set (mergeInvoices m rest) \<subseteq> set m \<union> set rest" by (rule Cons.IH)
    with False show ?thesis by (auto simp: mergeInvoices_known simp del: mergeInvoices.simps)
  qed
qed

lemma mergeInvoices_numbers:
  "inv_invoiceNumber ` set (mergeInvoices m imp) = inv_invoiceNumber ` (set m \<union> set imp)"
proof (induction imp arbitrary: m)
  case Nil
  show ?case by simp
next
  case (Cons x rest)
  show ?case
  proof (cases "\<forall>y\<in>set m. inv_invoiceNumber y \<noteq> inv_invoiceNumber x")
    case True
    have "inv_invoiceNumber ` set (mergeInvoices (m @ [x]) rest)
            = inv_invoiceNumber ` (set (m @ [x]) \<union> set rest)" by (rule Cons.IH)
    with True show ?thesis by (simp add: mergeInvoices_fresh del: mergeInvoices.simps)
  next
    case False
    then have "inv_invoiceNumber x \<in> inv_invoiceNumber ` set m" by (auto intro: rev_image_eqI)
    moreover have "inv_invoiceNumber ` set (mergeInvoices m rest)
            = inv_invoiceNumber ` (set m \<union> set rest)" by (rule Cons.IH)
    ultimately show ?thesis using False
      by (auto simp: mergeInvoices_known simp del: mergeInvoices.simps)
  qed
qed

lemma mergeInvoices_distinct:
  "distinct (map inv_invoiceNumber m) \<Longrightarrow> distinct (map inv_invoiceNumber (mergeInvoices m imp))"
proof (induction imp arbitrary: m)
  case Nil
  then show ?case by simp
next
  case (Cons x rest)
  let ?m1 = "if \<forall>y\<in>set m. inv_invoiceNumber y \<noteq> inv_invoiceNumber x then m @ [x] else m"
  from Cons.prems have "distinct (map inv_invoiceNumber ?m1)" by auto
  then have "distinct (map inv_invoiceNumber (mergeInvoices ?m1 rest))" by (rule Cons.IH)
  then show ?case by (simp only: mergeInvoices_Cons)
qed

text \<open>The entries with a given number after a merge.\<close>

lemma mergeInvoices_filter:
  "filter (\<lambda>x. inv_invoiceNumber x = n) (mergeInvoices m imp) =
     (if \<exists>y\<in>set m. inv_invoiceNumber y = n
      then filter (\<lambda>x. inv_invoiceNumber x = n) m
      else (case find (\<lambda>x. inv_invoiceNumber x = n) imp of None \<Rightarrow> [] | Some a \<Rightarrow> [a]))"
proof (induction imp arbitrary: m)
  case Nil
  show ?case by (auto simp: filter_empty_conv)
next
  case (Cons x rest)
  let ?m1 = "if \<forall>y\<in>set m. inv_invoiceNumber y \<noteq> inv_invoiceNumber x then m @ [x] else m"
  note IH = Cons.IH [of ?m1]
  show ?case
  proof (cases "\<exists>y\<in>set m. inv_invoiceNumber y = n")
    case True
    then have "\<exists>y\<in>set ?m1. inv_invoiceNumber y = n" by auto
    with IH have "filter (\<lambda>x. inv_invoiceNumber x = n) (mergeInvoices ?m1 rest)
        = filter (\<lambda>x. inv_invoiceNumber x = n) ?m1" by simp
    also from True have "\<dots> = filter (\<lambda>x. inv_invoiceNumber x = n) m" by auto
    finally show ?thesis using True by (simp only: mergeInvoices_Cons if_True)
  next
    case False
    then have empty: "filter (\<lambda>x. inv_invoiceNumber x = n) m = []"
      by (auto simp: filter_empty_conv)
    show ?thesis
    proof (cases "inv_invoiceNumber x = n")
      case True
      with False have m1: "?m1 = m @ [x]" by auto
      with True have "\<exists>y\<in>set ?m1. inv_invoiceNumber y = n" by auto
      with IH have "filter (\<lambda>x. inv_invoiceNumber x = n) (mergeInvoices ?m1 rest)
        = filter (\<lambda>x. inv_invoiceNumber x = n) ?m1" by simp
      also from m1 True empty have "\<dots> = [x]" by simp
      finally show ?thesis using False True by (simp only: mergeInvoices_Cons) simp
    next
      case neq: False
      with False have "\<not> (\<exists>y\<in>set ?m1. inv_invoiceNumber y = n)" by auto
      with IH have "filter (\<lambda>x. inv_invoiceNumber x = n) (mergeInvoices ?m1 rest)
        = (case find (\<lambda>x. inv_invoiceNumber x = n) rest of None \<Rightarrow> [] | Some a \<Rightarrow> [a])"
        by simp
      with False neq show ?thesis by (simp only: mergeInvoices_Cons) simp
    qed
  qed
qed

lemma importInvoices_result:
  "fst (importInvoices (JsonArray imp) ls) = Inr True \<Longrightarrow>
   getAllInvoices (snd (importInvoices (JsonArray imp) ls)) = mergeInvoices (getAllInvoices ls) imp"
  by (auto simp: importInvoices_def Let_def getAllInvoices_setItem split: sum.splits)

lemma importInvoices_failed:
  "fst (importInvoices file ls) \<noteq> Inr True \<Longrightarrow> snd (importInvoices file ls) = ls"
  by (auto simp: importInvoices_def Let_def split: sum.splits fileContents.splits)

lemma importInvoices_distinct:
  assumes "distinct (map inv_invoiceNumber (getAllInvoices ls))"
  shows "distinct (map inv_invoiceNumber (getAllInvoices (snd (importInvoices file ls))))"
proof (cases "fst (importInvoices file ls) = Inr True")
  case False
  with assms show ?thesis by (simp add: importInvoices_failed)
next
  case True
  then obtain imp where "file = JsonArray imp"
    by (cases "file") (auto simp: importInvoices_def)
  with True assms show ?thesis by (simp add: importInvoices_result mergeInvoices_distinct)
qed

lemma mergeInvoices_appended:
  "\<exists>new. mergeInvoices m imp = m @ new \<and> set new \<subseteq> set imp
      \<and> (\<forall>x\<in>set new. inv_invoiceNumber x \<notin> inv_invoiceNumber ` set m)"
proof (induction imp arbitrary: m)
  case Nil
  show ?case by simp
next
  case (Cons x rest)
  show ?case
  proof (cases "\<forall>y\<in>set m. inv_invoiceNumber y \<noteq> inv_invoiceNumber x")
    case True
    from Cons.IH [of "m @ [x]"] obtain new where
      new: "mergeInvoices (m @ [x]) rest = (m @ [x]) @ new" "set new \<subseteq> set rest"
        "\<forall>y\<in>set new. inv_invoiceNumber y \<notin> inv_invoiceNumber ` set (m @ [x])"
      by blast
    from True have "inv_invoiceNumber x \<notin> inv_invoiceNumber ` set m" by force
    with new True have "mergeInvoices m (x # rest) = m @ (x # new) \<and> set (x # new) \<subseteq> set (x # rest)
        \<and> (\<forall>y\<in>set (x # new). inv_invoiceNumber y \<notin> inv_invoiceNumber ` set m)"
      by (auto simp: mergeInvoices_fresh simp del: mergeInvoices.simps)
    then show ?thesis by blast
  next
    case False
    from Cons.IH [of m] obtain new where
      "mergeInvoices m rest = m @ new" "set new \<subseteq> set rest"
        "\<forall>y\<in>set new. inv_invoiceNumber y \<notin> inv_invoiceNumber ` set m"
      by blast
    with False have "mergeInvoices m (x # rest) = m @ new \<and> set new \<subseteq> set (x # rest)
        \<and> (\<forall>y\<in>set new. inv_invoiceNumber y \<notin> inv_invoiceNumber ` set m)"
      by (auto simp: mergeInvoices_known simp del: mergeInvoices.simps)
    then show ?thesis by blast
  qed
qed

text \<open>
  C6. \<open>importInvoices\<close> is rejected with the error \<open>Invalid file format\<close> when the file
  parses to a value that is not an array (such as \<open>{"not": "an array"}\<close>), and the store is
  then unchanged. When the file parses to an array and the merged array is written, the
  stored entries stay in front as they were and every lookup that succeeded before gives
  the same entry (existing data wins); every entry put behind them comes from the file and
  carries a number that was not stored; and every number of the file that was not stored is
  found afterwards, giving the first entry of the file with that number.
\<close>

theorem import_format_and_merge:
  "importInvoices (NonArray v) ls = (Inl InvalidFileFormat, ls)
   \<and> (fst (importInvoices (JsonArray imp) ls) = Inr True \<longrightarrow>
        prefix (getAllInvoices ls) (getAllInvoices (snd (importInvoices (JsonArray imp) ls)))
        \<and> (\<forall>x\<in>set (drop (length (getAllInvoices ls))
                          (getAllInvoices (snd (importInvoices (JsonArray imp) ls)))).
              x \<in> set imp \<and> inv_invoiceNumber x \<notin> inv_invoiceNumber ` set (getAllInvoices ls))
        \<and> (\<forall>n. getInvoice n ls \<noteq> None \<longrightarrow>
              getInvoice n (snd (importInvoices (JsonArray imp) ls)) = getInvoice n ls)
        \<and> (\<forall>x\<in>set imp. inv_invoiceNumber x \<notin> inv_invoiceNumber ` set (getAllInvoices ls) \<longrightarrow>
              getInvoice (inv_invoiceNumber x) (snd (importInvoices (JsonArray imp) ls))
                = find (\<lambda>y. inv_invoiceNumber y = inv_invoiceNumber x) imp
              \<and> find (\<lambda>y. inv_invoiceNumber y = inv_invoiceNumber x) imp \<noteq> None))"
proof (intro conjI impI)
  show "importInvoices (NonArray v) ls = (Inl InvalidFileFormat, ls)"
    by (simp add: importInvoices_def)
next
  let ?old = "getAllInvoices ls"
  let ?new = "getAllInvoices (snd (importInvoices (JsonArray imp) ls))"
  assume ok: "fst (importInvoices (JsonArray imp) ls) = Inr True"
  then have new: "?new = mergeInvoices ?old imp" by (rule importInvoices_result)
  show "prefix ?old ?new" by (simp add: new mergeInvoices_prefix)
  from mergeInvoices_appended [of ?old imp] obtain app where
    app: "mergeInvoices ?old imp = ?old @ app" "set app \<subseteq> set imp"
      "\<forall>x\<in>set app. inv_invoiceNumber x \<notin> inv_invoiceNumber ` set ?old"
    by blast
  then show "\<forall>x\<in>set (drop (length ?old) ?new).
      x \<in> set imp \<and> inv_invoiceNumber x \<notin> inv_invoiceNumber ` set ?old"
    by (auto simp: new)
  show "\<forall>n. getInvoice n ls \<noteq> None \<longrightarrow>
          getInvoice n (snd (importInvoices (JsonArray imp) ls)) = getInvoice n ls"
    using find_prefix_kept [OF mergeInvoices_prefix [of ?old imp]]
    by (auto simp: getInvoice_def new)
  show "\<forall>x\<in>set imp. inv_invoiceNumber x \<notin> inv_invoiceNumber ` set ?old \<longrightarrow>
          getInvoice (inv_invoiceNumber x) (snd (importInvoices (JsonArray imp) ls))
            = find (\<lambda>y. inv_invoiceNumber y = inv_invoiceNumber x) imp
          \<and> find (\<lambda>y. inv_invoiceNumber y = inv_invoiceNumber x) imp \<noteq> None"
  proof (intro ballI impI)
    fix x assume x: "x \<in> set imp" and
      fresh: "inv_invoiceNumber x \<notin> inv_invoiceNumber ` set ?old"
    let ?P = "\<lambda>y. inv_invoiceNumber y = inv_invoiceNumber x"
    from find_member_Some [of x imp ?P] x obtain a where a: "find ?P imp = Some a" by auto
    from fresh have "\<not> (\<exists>y\<in>set ?old. ?P y)" by (metis imageI)
    with a have "filter ?P (mergeInvoices ?old imp) = [a]"
      by (simp add: mergeInvoices_filter)
    then have "find ?P ?new = Some a" by (simp add: new find_filter_conv)
    with a show "getInvoice (inv_invoiceNumber x) (snd (importInvoices (JsonArray imp) ls))
            = find ?P imp \<and> find ?P imp \<noteq> None"
      by (simp add: getInvoice_def)
  qed
qed

theorem import_format_and_merge_witness:
  "importInvoices (NonArray (JObject [(''not'', ''an array'')])) (storing [numbered ''INV-001''])
     = (Inl InvalidFileFormat, storing [numbered ''INV-001''])
   \<and> fst (importInvoices
          (JsonArray [(numbered ''INV-001'')\<lparr>inv_taxRate := Some 5\<rparr>, numbered ''INV-002''])
          (storing [numbered ''INV-001''])) = Inr True
   \<and> getInvoice (Some ''INV-001'') (snd (importInvoices
          (JsonArray [(numbered ''INV-001'')\<lparr>inv_taxRate := Some 5\<rparr>, numbered ''INV-002''])
          (storing [numbered ''INV-001'']))) = Some (numbered ''INV-001'')
   \<and> getInvoice (Some ''INV-002'') (snd (importInvoices
          (JsonArray [(numbered ''INV-001'')\<lparr>inv_taxRate := Some 5\<rparr>, numbered ''INV-002''])
          (storing [numbered ''INV-001'']))) = Some (numbered ''INV-002'')"
proof -
  let ?ls = "storing [numbered ''INV-001'']"
  let ?imp = "[(numbered ''INV-001'')\<lparr>inv_taxRate := Some 5\<rparr>, numbered ''INV-002'']"
  have old: "getAllInvoices ?ls = [numbered ''INV-001'']" by (rule getAllInvoices_storing)
  have ok: "fst (importInvoices (JsonArray ?imp) ?ls) = Inr True"
    by (rule importInvoices_storing)
  have known: "getInvoice (Some ''INV-001'') ?ls = Some (numbered ''INV-001'')"
    unfolding getInvoice_def old by (simp add: numbered_def)
  have member: "numbered ''INV-002'' \<in> set ?imp" by simp
  have fresh: "inv_invoiceNumber (numbered ''INV-002'') \<notin> inv_invoiceNumber ` set (getAllInvoices ?ls)"
    unfolding old by (simp add: numbered_def)
  have first: "find (\<lambda>y. inv_invoiceNumber y = inv_invoiceNumber (numbered ''INV-002'')) ?imp
      = Some (numbered ''INV-002'')"
    by (simp add: numbered_def)
  have num: "inv_invoiceNumber (numbered ''INV-002'') = Some ''INV-002''"
    by (simp add: numbered_def)
  note inst = import_format_and_merge [where ls = ?ls and imp = ?imp
      and v = "JObject [(''not'', ''an array'')]"]
  from inst have "importInvoices (NonArray (JObject [(''not'', ''an array'')])) ?ls
      = (Inl InvalidFileFormat, ?ls)"
    by (rule conjunct1)
  moreover from inst ok known
  have "getInvoice (Some ''INV-001'') (snd (importInvoices (JsonArray ?imp) ?ls))
      = Some (numbered ''INV-001'')"
    by simp
  moreover from inst ok member fresh
  have "getInvoice (inv_invoiceNumber (numbered ''INV-002''))
        (snd (importInvoices (JsonArray ?imp) ?ls))
      = find (\<lambda>y. inv_invoiceNumber y = inv_invoiceNumber (numbered ''INV-002'')) ?imp"
    by blast
  ultimately show ?thesis using ok first num by simp
qed

text \<open>
  C10. When the imported array holds two or more entries with one invoice number that is
  not stored, a successful \<open>importInvoices\<close> appends only the first of them: afterwards the
  entries with that number are exactly the first entry of the file that carries it.
\<close>

theorem import_duplicates_first_only:
  assumes "fst (importInvoices (JsonArray imp) ls) = Inr True"
    and "n \<notin> inv_invoiceNumber ` set (getAllInvoices ls)"
    and "find (\<lambda>x. inv_invoiceNumber x = n) imp = Some a"
  shows "filter (\<lambda>x. inv_invoiceNumber x = n)
           (getAllInvoices (snd (importInvoices (JsonArray imp) ls))) = [a]"
proof -
  from assms(2) have "\<not> (\<exists>y\<in>set (getAllInvoices ls). inv_invoiceNumber y = n)" by force
  with assms(1,3) show ?thesis
    by (simp add: importInvoices_result mergeInvoices_filter)
qed

theorem import_duplicates_first_only_witness:
  "filter (\<lambda>x. inv_invoiceNumber x = Some ''INV-002'')
     (getAllInvoices (snd (importInvoices
        (JsonArray [(numbered ''INV-002'')\<lparr>inv_taxRate := Some 5\<rparr>,
                    (numbered ''INV-002'')\<lparr>inv_taxRate := Some 7\<rparr>,
                    numbered ''INV-002''])
        (storing [numbered ''INV-001'']))))
     = [(numbered ''INV-002'')\<lparr>inv_taxRate := Some 5\<rparr>]
   \<and> getAllInvoices (snd (importInvoices
        (JsonArray [(numbered ''INV-002'')\<lparr>inv_taxRate := Some 5\<rparr>,
                    (numbered ''INV-002'')\<lparr>inv_taxRate := Some 7\<rparr>,
                    numbered ''INV-002''])
        (storing [numbered ''INV-001''])))
     = [numbered ''INV-001'', (numbered ''INV-002'')\<lparr>inv_taxRate := Some 5\<rparr>]"
proof -
  let ?ls = "storing [numbered ''INV-001'']"
  let ?imp = "[(numbered ''INV-002'')\<lparr>inv_taxRate := Some 5\<rparr>,
               (numbered ''INV-002'')\<lparr>inv_taxRate := Some 7\<rparr>, numbered ''INV-002'']"
  have old: "getAllInvoices ?ls = [numbered ''INV-001'']" by (rule getAllInvoices_storing)
  have ok: "fst (importInvoices (JsonArray ?imp) ?ls) = Inr True"
    by (rule importInvoices_storing)
  have fresh: "Some ''INV-002'' \<notin> inv_invoiceNumber ` set (getAllInvoices ?ls)"
    unfolding old by (simp add: numbered_def)
  have first: "find (\<lambda>x. inv_invoiceNumber x = Some ''INV-002'') ?imp
      = Some ((numbered ''INV-002'')\<lparr>inv_taxRate := Some 5\<rparr>)"
    by (simp add: numbered_def)
  have all: "getAllInvoices (snd (importInvoices (JsonArray ?imp) ?ls))
      = [numbered ''INV-001'', (numbered ''INV-002'')\<lparr>inv_taxRate := Some 5\<rparr>]"
    by (simp add: importInvoices_def setItem_def getAllInvoices_def storing_def Let_def
        numbered_def)
  from import_duplicates_first_only [OF ok fresh first] all show ?thesis by simp
qed

section \<open>Deleting from a store that the program wrote\<close>

text \<open>
  Every store that the program can have written holds pairwise distinct invoice numbers.
\<close>

lemma reachable_distinct:
  "reachable ls \<Longrightarrow> distinct (map inv_invoiceNumber (getAllInvoices ls))"
proof (induction rule: reachable.induct)
  case (reachable_empty ls)
  then show ?case by simp
next
  case (reachable_save ls now invoiceData)
  from reachable_save.IH show ?case by (rule saveInvoice_distinct)
next
  case (reachable_delete ls number)
  from reachable_delete.IH show ?case by (rule deleteInvoice_distinct)
next
  case (reachable_import ls contents)
  from reachable_import.IH show ?case by (rule importInvoices_distinct)
next
  case (reachable_clear ls)
  show ?case by (simp add: clearAllInvoices_def getAllInvoices_def)
qed

lemma saveInvoice_storing_snd:
  "snd (saveInvoice now iv (storing xs)) =
     storing (if findIndex (\<lambda>x. inv_invoiceNumber x = inv_invoiceNumber iv) xs \<noteq> -1
              then xs[nat (findIndex (\<lambda>x. inv_invoiceNumber x = inv_invoiceNumber iv) xs)
                        := iv\<lparr>inv_savedAt := Some now\<rparr>]
              else xs @ [iv\<lparr>inv_savedAt := Some now\<rparr>])"
  by (simp add: saveInvoice_def setItem_def storing_def getAllInvoices_def Let_def)

text \<open>
  C7. For every invoice number and every stored collection, \<open>deleteInvoice\<close> on a number
  that is not present leaves \<open>getAllInvoices()\<close> unchanged; and on every stored collection
  that the program can have written (equally, on every one whose numbers are pairwise
  distinct), a \<open>deleteInvoice\<close> that reports success on a present number makes
  \<open>getAllInvoices()\<close> exactly one shorter, and a following \<open>getInvoice\<close> of that number
  returns \<open>null\<close>.
\<close>

theorem delete_absent_present:
  "((\<forall>x\<in>set (getAllInvoices ls). inv_invoiceNumber x \<noteq> n) \<longrightarrow>
      getAllInvoices (snd (deleteInvoice n ls)) = getAllInvoices ls)
   \<and> (reachable ls \<and> fst (deleteInvoice n ls)
        \<and> (\<exists>x\<in>set (getAllInvoices ls). inv_invoiceNumber x = n) \<longrightarrow>
      length (getAllInvoices (snd (deleteInvoice n ls))) + 1 = length (getAllInvoices ls)
      \<and> getInvoice n (snd (deleteInvoice n ls)) = None)
   \<and> (distinct (map inv_invoiceNumber (getAllInvoices ls)) \<and> fst (deleteInvoice n ls)
        \<and> (\<exists>x\<in>set (getAllInvoices ls). inv_invoiceNumber x = n) \<longrightarrow>
      length (getAllInvoices (snd (deleteInvoice n ls))) + 1 = length (getAllInvoices ls)
      \<and> getInvoice n (snd (deleteInvoice n ls)) = None)"
proof -
  have absent: "(\<forall>x\<in>set (getAllInvoices ls). inv_invoiceNumber x \<noteq> n) \<longrightarrow>
      getAllInvoices (snd (deleteInvoice n ls)) = getAllInvoices ls"
  proof
    assume absent: "\<forall>x\<in>set (getAllInvoices ls). inv_invoiceNumber x \<noteq> n"
    show "getAllInvoices (snd (deleteInvoice n ls)) = getAllInvoices ls"
    proof (cases "fst (deleteInvoice n ls)")
      case True
      with absent show ?thesis by (simp add: deleteInvoice_result filter_absent)
    next
      case False
      then show ?thesis by (simp add: deleteInvoice_failed)
    qed
  qed
  have present: "distinct (map inv_invoiceNumber (getAllInvoices ls)) \<and> fst (deleteInvoice n ls)
        \<and> (\<exists>x\<in>set (getAllInvoices ls). inv_invoiceNumber x = n) \<longrightarrow>
      length (getAllInvoices (snd (deleteInvoice n ls))) + 1 = length (getAllInvoices ls)
      \<and> getInvoice n (snd (deleteInvoice n ls)) = None"
  proof
    assume h: "distinct (map inv_invoiceNumber (getAllInvoices ls)) \<and> fst (deleteInvoice n ls)
        \<and> (\<exists>x\<in>set (getAllInvoices ls). inv_invoiceNumber x = n)"
    then have "Suc (length (filter (\<lambda>x. inv_invoiceNumber x \<noteq> n) (getAllInvoices ls)))
        = length (getAllInvoices ls)"
      by (intro length_filter_distinct_key) simp_all
    with h have "length (getAllInvoices (snd (deleteInvoice n ls))) + 1 = length (getAllInvoices ls)"
      by (simp add: deleteInvoice_result)
    moreover from h have "getInvoice n (snd (deleteInvoice n ls)) = None"
      by (simp add: getInvoice_def deleteInvoice_result find_filter_removed)
    ultimately show "length (getAllInvoices (snd (deleteInvoice n ls))) + 1 = length (getAllInvoices ls)
      \<and> getInvoice n (snd (deleteInvoice n ls)) = None" by (rule conjI)
  qed
  have written: "reachable ls \<and> fst (deleteInvoice n ls)
        \<and> (\<exists>x\<in>set (getAllInvoices ls). inv_invoiceNumber x = n) \<longrightarrow>
      length (getAllInvoices (snd (deleteInvoice n ls))) + 1 = length (getAllInvoices ls)
      \<and> getInvoice n (snd (deleteInvoice n ls)) = None"
  proof
    assume h: "reachable ls \<and> fst (deleteInvoice n ls)
        \<and> (\<exists>x\<in>set (getAllInvoices ls). inv_invoiceNumber x = n)"
    then have "distinct (map inv_invoiceNumber (getAllInvoices ls))"
      by (intro reachable_distinct) (rule conjunct1)
    with h have "distinct (map inv_invoiceNumber (getAllInvoices ls)) \<and> fst (deleteInvoice n ls)
        \<and> (\<exists>x\<in>set (getAllInvoices ls). inv_invoiceNumber x = n)"
      by (simp only: simp_thms)
    with present show "length (getAllInvoices (snd (deleteInvoice n ls))) + 1
          = length (getAllInvoices ls)
        \<and> getInvoice n (snd (deleteInvoice n ls)) = None"
      by (rule mp)
  qed
  from absent written present show ?thesis by (intro conjI)
qed

theorem delete_absent_present_witness:
  "reachable (snd (saveInvoice ''2024-03-02T09:00:00.000Z'' (numbered ''INV-002'')
       (snd (saveInvoice ''2024-03-01T09:00:00.000Z'' (numbered ''INV-001'') (storing [])))))
   \<and> length (getAllInvoices (snd (saveInvoice ''2024-03-02T09:00:00.000Z'' (numbered ''INV-002'')
       (snd (saveInvoice ''2024-03-01T09:00:00.000Z'' (numbered ''INV-001'') (storing [])))))) = 2
   \<and> getAllInvoices (snd (deleteInvoice (Some ''INV-009'')
       (snd (saveInvoice ''2024-03-02T09:00:00.000Z'' (numbered ''INV-002'')
         (snd (saveInvoice ''2024-03-01T09:00:00.000Z'' (numbered ''INV-001'') (storing [])))))))
     = getAllInvoices (snd (saveInvoice ''2024-03-02T09:00:00.000Z'' (numbered ''INV-002'')
         (snd (saveInvoice ''2024-03-01T09:00:00.000Z'' (numbered ''INV-001'') (storing [])))))
   \<and> fst (deleteInvoice (Some ''INV-002'')
       (snd (saveInvoice ''2024-03-02T09:00:00.000Z'' (numbered ''INV-002'')
         (snd (saveInvoice ''2024-03-01T09:00:00.000Z'' (numbered ''INV-001'') (storing []))))))
   \<and> length (getAllInvoices (snd (deleteInvoice (Some ''INV-002'')
       (snd (saveInvoice ''2024-03-02T09:00:00.000Z'' (numbered ''INV-002'')
         (snd (saveInvoice ''2024-03-01T09:00:00.000Z'' (numbered ''INV-001'') (storing [])))))))) = 1
   \<and> getInvoice (Some ''INV-002'') (snd (deleteInvoice (Some ''INV-002'')
       (snd (saveInvoice ''2024-03-02T09:00:00.000Z'' (numbered ''INV-002'')
         (snd (saveInvoice ''2024-03-01T09:00:00.000Z'' (numbered ''INV-001'') (storing []))))))) = None"
proof -
  let ?a = "(numbered ''INV-001'')\<lparr>inv_savedAt := Some ''2024-03-01T09:00:00.000Z''\<rparr>"
  let ?b = "(numbered ''INV-002'')\<lparr>inv_savedAt := Some ''2024-03-02T09:00:00.000Z''\<rparr>"
  let ?ls = "snd (saveInvoice ''2024-03-02T09:00:00.000Z'' (numbered ''INV-002'')
       (snd (saveInvoice ''2024-03-01T09:00:00.000Z'' (numbered ''INV-001'') (storing []))))"
  have store: "?ls = storing [?a, ?b]"
    by (simp add: saveInvoice_storing_snd numbered_def emptyObject_def)
  have old: "getAllInvoices ?ls = [?a, ?b]"
    by (simp only: store getAllInvoices_storing)
  have reach: "reachable ?ls"
    by (intro reachable_save reachable_empty getAllInvoices_storing)
  have ok: "fst (deleteInvoice (Some ''INV-002'') ?ls)"
    by (simp only: store deleteInvoice_storing)
  have absent: "\<forall>x\<in>set (getAllInvoices ?ls). inv_invoiceNumber x \<noteq> Some ''INV-009''"
    unfolding old by (simp add: numbered_def)
  have present: "\<exists>x\<in>set (getAllInvoices ?ls). inv_invoiceNumber x = Some ''INV-002''"
    unfolding old by (simp add: numbered_def)
  note unchanged = delete_absent_present [where ls = ?ls and n = "Some ''INV-009''", THEN conjunct1, THEN mp,
      OF absent]
  from reach ok present
  have "reachable ?ls \<and> fst (deleteInvoice (Some ''INV-002'') ?ls)
      \<and> (\<exists>x\<in>set (getAllInvoices ?ls). inv_invoiceNumber x = Some ''INV-002'')"
    by (intro conjI)
  note gone = delete_absent_present [where ls = ?ls and n = "Some ''INV-002''", THEN conjunct2, THEN conjunct1,
      THEN mp, OF this]
  from old have len: "length (getAllInvoices ?ls) = 2" by simp
  with gone have "length (getAllInvoices (snd (deleteInvoice (Some ''INV-002'') ?ls))) = 1
      \<and> getInvoice (Some ''INV-002'') (snd (deleteInvoice (Some ''INV-002'') ?ls)) = None"
    by simp
  with reach len unchanged ok show ?thesis by (intro conjI) simp_all
qed

section \<open>Loading an invoice into the state\<close>

lemma loadState_items: "items (loadState d st) = or_object (inv_items d) []"
  by (simp add: loadState_def Let_def)

text \<open>
  C4 as stated: every field absent on the incoming record falls back to the current
  in-memory value, \<open>items\<close> alone excepted. It fails for \<open>taxRate\<close> (and likewise for
  \<open>discount\<close>, \<open>subtotal\<close> and \<open>total\<close>): with a current tax rate of 10, loading a record
  without \<open>taxRate\<close> leaves 0.
\<close>

theorem loadState_taxRate_counterexample:
  "inv_taxRate emptyObject = None
   \<and> taxRate ((initialState ''2024-03-01'')\<lparr>taxRate := 10\<rparr>) = 10
   \<and> taxRate (loadState emptyObject ((initialState ''2024-03-01'')\<lparr>taxRate := 10\<rparr>)) = 0"
  by (simp add: loadState_def emptyObject_def initialState_def)

text \<open>
  C4, amended. For every incoming record, \<open>loadState\<close> replaces the current invoice field
  by field: \<open>business\<close>, \<open>client\<close>, \<open>invoiceNumber\<close>, \<open>issueDate\<close> and \<open>dueDate\<close> fall back
  to the current in-memory value when absent on the incoming record (the three strings
  also when empty), \<open>items\<close> defaults to the empty sequence when absent, and \<open>taxRate\<close>,
  \<open>discount\<close>, \<open>subtotal\<close> and \<open>total\<close> default to 0 when absent; a field that is present
  takes the incoming value.
\<close>

theorem loadState_fallbacks:
  "business (loadState d st) = (case inv_business d of None \<Rightarrow> business st | Some v \<Rightarrow> v)
   \<and> client (loadState d st) = (case inv_client d of None \<Rightarrow> client st | Some v \<Rightarrow> v)
   \<and> invoiceNumber (loadState d st)
       = (case inv_invoiceNumber d of None \<Rightarrow> invoiceNumber st
          | Some s \<Rightarrow> if s = [] then invoiceNumber st else s)
   \<and> issueDate (loadState d st)
       = (case inv_issueDate d of None \<Rightarrow> issueDate st
          | Some s \<Rightarrow> if s = [] then issueDate st else s)
   \<and> dueDate (loadState d st)
       = (case inv_dueDate d of None \<Rightarrow> dueDate st
          | Some s \<Rightarrow> if s = [] then dueDate st else s)
   \<and> items (loadState d st) = (case inv_items d of None \<Rightarrow> [] | Some v \<Rightarrow> v)
   \<and> taxRate (loadState d st) = (case inv_taxRate d of None \<Rightarrow> 0 | Some r \<Rightarrow> r)
   \<and> discount (loadState d st) = (case inv_discount d of None \<Rightarrow> 0 | Some r \<Rightarrow> r)
   \<and> subtotal (loadState d st) = (case inv_subtotal d of None \<Rightarrow> 0 | Some r \<Rightarrow> r)
   \<and> total (loadState d st) = (case inv_total d of None \<Rightarrow> 0 | Some r \<Rightarrow> r)"
  by (simp add: loadState_def Let_def split: option.splits)

theorem loadState_fallbacks_witness:
  "business (loadState (emptyObject\<lparr>inv_client := Some \<lparr>name = ''Bola'', phone = ''2'', address = ''Abuja''\<rparr>\<rparr>)
       ((initialState ''2024-03-01'')\<lparr>business := \<lparr>name = ''Acme'', phone = ''1'', address = ''Lagos''\<rparr>,
                                       taxRate := 10\<rparr>))
     = \<lparr>name = ''Acme'', phone = ''1'', address = ''Lagos''\<rparr>
   \<and> client (loadState (emptyObject\<lparr>inv_client := Some \<lparr>name = ''Bola'', phone = ''2'', address = ''Abuja''\<rparr>\<rparr>)
       ((initialState ''2024-03-01'')\<lparr>business := \<lparr>name = ''Acme'', phone = ''1'', address = ''Lagos''\<rparr>,
                                       taxRate := 10\<rparr>))
     = \<lparr>name = ''Bola'', phone = ''2'', address = ''Abuja''\<rparr>
   \<and> issueDate (loadState (emptyObject\<lparr>inv_client := Some \<lparr>name = ''Bola'', phone = ''2'', address = ''Abuja''\<rparr>\<rparr>)
       ((initialState ''2024-03-01'')\<lparr>business := \<lparr>name = ''Acme'', phone = ''1'', address = ''Lagos''\<rparr>,
                                       taxRate := 10\<rparr>))
     = ''2024-03-01''
   \<and> items (loadState (emptyObject\<lparr>inv_client := Some \<lparr>name = ''Bola'', phone = ''2'', address = ''Abuja''\<rparr>\<rparr>)
       ((initialState ''2024-03-01'')\<lparr>business := \<lparr>name = ''Acme'', phone = ''1'', address = ''Lagos''\<rparr>,
                                       taxRate := 10\<rparr>))
     = []
   \<and> taxRate (loadState (emptyObject\<lparr>inv_client := Some \<lparr>name = ''Bola'', phone = ''2'', address = ''Abuja''\<rparr>\<rparr>)
       ((initialState ''2024-03-01'')\<lparr>business := \<lparr>name = ''Acme'', phone = ''1'', address = ''Lagos''\<rparr>,
                                       taxRate := 10\<rparr>))
     = 0"
  using loadState_fallbacks
    [of "emptyObject\<lparr>inv_client := Some \<lparr>name = ''Bola'', phone = ''2'', address = ''Abuja''\<rparr>\<rparr>"
        "(initialState ''2024-03-01'')\<lparr>business := \<lparr>name = ''Acme'', phone = ''1'', address = ''Lagos''\<rparr>,
                                       taxRate := 10\<rparr>"]
  by (simp add: emptyObject_def initialState_def)

text \<open>
  C5 as stated: after \<open>loadState\<close> the next-item-ID counter is 1 when the loaded invoice
  has no items. It fails: the counter is only written under \<open>state.items.length > 0\<close>, so
  with a counter of 5 and a record without items it stays 5.
\<close>

theorem loadState_counter_counterexample:
  "items (loadState emptyObject ((initialState ''2024-03-01'')\<lparr>nextItemId := 5\<rparr>)) = []
   \<and> nextItemId (loadState emptyObject ((initialState ''2024-03-01'')\<lparr>nextItemId := 5\<rparr>)) = 5"
  by (simp add: loadState_def emptyObject_def initialState_def)

text \<open>
  C5, amended. After every \<open>loadState\<close> the next-item-ID counter is the largest item ID
  plus one when the loaded invoice has items, and keeps its previous value when it has
  none; either way the ID that a following \<open>addItem\<close> assigns differs from every item ID of
  the loaded invoice, and after loading items with the IDs 2 and 9 the next added item
  gets the ID 10.
\<close>

theorem loadState_nextItemId:
  "(items (loadState d st) \<noteq> [] \<longrightarrow>
      nextItemId (loadState d st) = Max (item_id ` set (items (loadState d st))) + 1)
   \<and> (items (loadState d st) = [] \<longrightarrow> nextItemId (loadState d st) = nextItemId st)
   \<and> item_id (fst (addItem x (loadState d st))) = nextItemId (loadState d st)
   \<and> item_id (fst (addItem x (loadState d st))) \<notin> item_id ` set (items (loadState d st))
   \<and> (inv_items d = Some its \<and> map item_id its = [2, 9] \<longrightarrow>
        item_id (fst (addItem x (loadState d st))) = 10)"
proof -
  let ?st = "loadState d st"
  have id: "item_id (fst (addItem x ?st)) = nextItemId ?st"
    by (simp add: addItem_def Let_def)
  have nonempty: "items ?st \<noteq> [] \<longrightarrow> nextItemId ?st = Max (item_id ` set (items ?st)) + 1"
    by (simp add: loadState_def Let_def)
  have empty: "items ?st = [] \<longrightarrow> nextItemId ?st = nextItemId st"
    by (simp add: loadState_def Let_def)
  have fresh: "nextItemId ?st \<notin> item_id ` set (items ?st)"
  proof (cases "items ?st = []")
    case True
    then show ?thesis by simp
  next
    case False
    with nonempty have eq: "nextItemId ?st = Max (item_id ` set (items ?st)) + 1" by simp
    show ?thesis
    proof
      assume "nextItemId ?st \<in> item_id ` set (items ?st)"
      then have "nextItemId ?st \<le> Max (item_id ` set (items ?st))" by simp
      with eq show False by simp
    qed
  qed
  have ex: "inv_items d = Some its \<and> map item_id its = [2, 9] \<longrightarrow> nextItemId ?st = 10"
  proof
    assume h: "inv_items d = Some its \<and> map item_id its = [2, 9]"
    then have its: "items ?st = its" by (simp add: loadState_items)
    from h have "its \<noteq> []" by auto
    moreover from h have "item_id ` set its = {2, 9}" by (metis list.set_map list.simps(15) empty_set)
    ultimately show "nextItemId ?st = 10" using nonempty its by simp
  qed
  from id nonempty empty fresh ex show ?thesis by simp
qed

theorem loadState_nextItemId_witness:
  "items (loadState (emptyObject\<lparr>inv_items := Some [blankItem 2, blankItem 9]\<rparr>)
            (initialState ''2024-03-01'')) \<noteq> []
   \<and> nextItemId (loadState (emptyObject\<lparr>inv_items := Some [blankItem 2, blankItem 9]\<rparr>)
            (initialState ''2024-03-01'')) = 10
   \<and> item_id (fst (addItem \<lparr>in_description = Some [], in_quantity = Number (Num 1),
                              in_price = Number (Num 0)\<rparr>
        (loadState (emptyObject\<lparr>inv_items := Some [blankItem 2, blankItem 9]\<rparr>)
            (initialState ''2024-03-01'')))) = 10
   \<and> nextItemId (loadState (emptyObject\<lparr>inv_items := Some []\<rparr>)
            ((initialState ''2024-03-01'')\<lparr>nextItemId := 5\<rparr>)) = 5"
proof -
  let ?d = "emptyObject\<lparr>inv_items := Some [blankItem 2, blankItem 9]\<rparr>"
  let ?x = "\<lparr>in_description = Some [], in_quantity = Number (Num 1), in_price = Number (Num 0)\<rparr>"
  have its: "inv_items ?d = Some [blankItem 2, blankItem 9]
      \<and> map item_id [blankItem 2, blankItem 9] = [2, 9]"
    by (simp add: blankItem_def)
  have loaded: "items (loadState ?d (initialState ''2024-03-01'')) = [blankItem 2, blankItem 9]"
    by (simp add: loadState_items)
  have none: "items (loadState (emptyObject\<lparr>inv_items := Some []\<rparr>)
      ((initialState ''2024-03-01'')\<lparr>nextItemId := 5\<rparr>)) = []"
    by (simp add: loadState_items)
  from loadState_nextItemId [where d = ?d and st = "initialState ''2024-03-01''" and x = ?x
      and its = "[blankItem 2, blankItem 9]"] its
  have a: "item_id (fst (addItem ?x (loadState ?d (initialState ''2024-03-01'')))) = 10
      \<and> nextItemId (loadState ?d (initialState ''2024-03-01'')) = 10"
    by simp
  from loadState_nextItemId [where d = "emptyObject\<lparr>inv_items := Some []\<rparr>"
      and st = "(initialState ''2024-03-01'')\<lparr>nextItemId := 5\<rparr>"] none
  have b: "nextItemId (loadState (emptyObject\<lparr>inv_items := Some []\<rparr>)
      ((initialState ''2024-03-01'')\<lparr>nextItemId := 5\<rparr>)) = 5"
    by (simp add: initialState_def)
  from a b loaded show ?thesis by simp
qed

section \<open>A quantity of zero\<close>

lemma find_updateFirst:
  "(\<And>x. P x \<Longrightarrow> P (f x)) \<Longrightarrow> find P (updateFirst P f xs) = map_option f (find P xs)"
  by (induction xs) auto

lemma item_id_applyUpdates: "item_id (applyUpdates u it) = item_id it"
  by (simp add: applyUpdates_def Let_def split: option.splits)

lemma length_updateFirst: "length (updateFirst P f xs) = length xs"
  by (induction xs) auto

text \<open>
  C8. \<open>addItem\<close> called with the quantity 0 creates an item whose quantity is 1 (\<open>0 || 1\<close>
  is 1), and appends it; \<open>updateItem\<close> called with the quantity 0 for an existing item
  sets that item's quantity to 0. The two operations disagree on a zero quantity.
\<close>

theorem zero_quantity_add_vs_update:
  "(in_quantity item = Number (Num 0) \<longrightarrow>
      item_quantity (fst (addItem item st)) = 1
      \<and> items (snd (addItem item st)) = items st @ [fst (addItem item st)])
   \<and> (in_quantity updates = Number (Num 0)
        \<and> find (\<lambda>i. item_id i = itemId) (items st) = Some it \<longrightarrow>
      find (\<lambda>i. item_id i = itemId) (items (updateItem itemId updates st))
        = Some (applyUpdates updates it)
      \<and> item_quantity (applyUpdates updates it) = 0)"
proof (intro conjI impI)
  assume "in_quantity item = Number (Num 0)"
  then show "item_quantity (fst (addItem item st)) = 1"
    by (simp add: addItem_def Let_def)
  show "items (snd (addItem item st)) = items st @ [fst (addItem item st)]"
    by (simp add: addItem_def Let_def)
next
  assume h: "in_quantity updates = Number (Num 0)
        \<and> find (\<lambda>i. item_id i = itemId) (items st) = Some it"
  then show "find (\<lambda>i. item_id i = itemId) (items (updateItem itemId updates st))
        = Some (applyUpdates updates it)"
    by (simp add: updateItem_def find_updateFirst item_id_applyUpdates)
  from h show "item_quantity (applyUpdates updates it) = 0"
    by (simp add: applyUpdates_def Let_def split: option.splits)
qed

theorem zero_quantity_add_vs_update_witness:
  "item_quantity (fst (addItem \<lparr>in_description = Some ''bolt'', in_quantity = Number (Num 0),
                                 in_price = Number (Num 4)\<rparr> (initialState ''2024-03-01''))) = 1
   \<and> map item_quantity (items (updateItem 1
        \<lparr>in_description = None, in_quantity = Number (Num 0), in_price = Undefined\<rparr>
        ((initialState ''2024-03-01'')\<lparr>items := [blankItem 1, blankItem 2]\<rparr>))) = [0, 1]"
proof -
  let ?st = "(initialState ''2024-03-01'')\<lparr>items := [blankItem 1, blankItem 2]\<rparr>"
  let ?u = "\<lparr>in_description = None, in_quantity = Number (Num 0), in_price = Undefined\<rparr>"
  let ?new = "\<lparr>in_description = Some ''bolt'', in_quantity = Number (Num 0),
               in_price = Number (Num 4)\<rparr>"
  have found: "find (\<lambda>i. item_id i = 1) (items ?st) = Some (blankItem 1)"
    by (simp add: blankItem_def)
  have rest: "items (updateItem 1 ?u ?st) = [applyUpdates ?u (blankItem 1), blankItem 2]"
    by (simp add: updateItem_def blankItem_def)
  from zero_quantity_add_vs_update [where item = ?new and st = "initialState ''2024-03-01''"
      and updates = ?u and itemId = 1 and it = "blankItem 1"]
  have "item_quantity (fst (addItem ?new (initialState ''2024-03-01''))) = 1"
    by simp
  moreover from zero_quantity_add_vs_update [where updates = ?u and itemId = 1
      and it = "blankItem 1" and st = ?st] found
  have "item_quantity (applyUpdates ?u (blankItem 1)) = 0"
    by simp
  moreover have "item_quantity (blankItem 2) = 1" by (simp add: blankItem_def)
  ultimately show ?thesis using rest by simp
qed

section \<open>The next invoice number\<close>

lemma digitVal_digitChar: "d < 10 \<Longrightarrow> digitVal (digitChar d) = d"
  by (simp add: digitVal_def digitChar_def)

lemma isDigit_digitChar: "d < 10 \<Longrightarrow> isDigit (digitChar d)"
  by (simp add: isDigit_def digitChar_def)

lemma parseInt_snoc: "parseInt (ds @ [c]) = 10 * parseInt ds + digitVal c"
  by (simp add: parseInt_def)

lemma parseInt_single: "parseInt [c] = digitVal c"
  by (simp add: parseInt_def)

lemma toString_small: "n < 10 \<Longrightarrow> toString n = [digitChar n]"
  by (subst toString.simps) simp

lemma toString_large:
  "\<not> n < 10 \<Longrightarrow> toString n = toString (n div 10) @ [digitChar (n mod 10)]"
  by (subst toString.simps) simp

lemma parseInt_toString: "parseInt (toString n) = n"
proof (induction n rule: toString.induct)
  case (1 n)
  show ?case
  proof (cases "n < 10")
    case True
    then show ?thesis by (simp add: toString_small parseInt_single digitVal_digitChar)
  next
    case False
    with "1.IH" have "parseInt (toString (n div 10)) = n div 10" by simp
    moreover have "toString n = toString (n div 10) @ [digitChar (n mod 10)]"
      using False by (rule toString_large)
    ultimately show ?thesis by (simp add: parseInt_snoc digitVal_digitChar)
  qed
qed

lemma isDigit_toString: "list_all isDigit (toString n)"
proof (induction n rule: toString.induct)
  case (1 n)
  show ?case
  proof (cases "n < 10")
    case True
    then show ?thesis by (simp add: toString_small isDigit_digitChar)
  next
    case False
    with "1.IH" have "list_all isDigit (toString (n div 10))" by simp
    moreover have "toString n = toString (n div 10) @ [digitChar (n mod 10)]"
      using False by (rule toString_large)
    ultimately show ?thesis by (simp add: isDigit_digitChar)
  qed
qed

lemma toString_nonempty: "toString n \<noteq> []"
  by (subst toString.simps) simp

lemma mapThrowing_present:
  "map h xs = map Some ss \<Longrightarrow>
   mapThrowing (\<lambda>x. case h x of None \<Rightarrow> Inl e | Some s \<Rightarrow> Inr (k s)) xs = Inr (map k ss)"
proof (induction xs arbitrary: ss)
  case Nil
  then show ?case by simp
next
  case (Cons x xs)
  then obtain s ss' where ss: "ss = s # ss'" by (cases ss) auto
  with Cons.prems have "h x = Some s" and "map h xs = map Some ss'" by simp_all
  with Cons.IH [of ss'] ss show ?case by simp
qed

lemma generateInvoiceNumber_present:
  assumes "nums \<noteq> []"
    and "map inv_invoiceNumber (getAllInvoices ls) = map Some nums"
  shows "generateInvoiceNumber ls
    = Inr (''INV-'' @ padStart 3 (CHR ''0'') (toString (Max (extractNumber ` set nums) + 1)))"
proof -
  from assms(2) have "length (getAllInvoices ls) = length nums" by (metis length_map)
  with assms(1) have ne: "length (getAllInvoices ls) > 0" by simp
  from assms(2) have "mapThrowing
      (\<lambda>iv. case inv_invoiceNumber iv of None \<Rightarrow> Inl TypeError | Some s \<Rightarrow> Inr (extractNumber s))
      (getAllInvoices ls) = Inr (map extractNumber nums)"
    by (rule mapThrowing_present)
  with ne show ?thesis by (simp add: generateInvoiceNumber_def Let_def)
qed

text \<open>An occurrence of the pattern at the front of a string.\<close>

lemma front_occurrence:
  "(take 4 s = ''INV-'' \<and> takeWhile isDigit (drop 4 s) \<noteq> [])
     = (\<exists>c r. s = ''INV-'' @ c # r \<and> isDigit c)"
proof
  assume h: "take 4 s = ''INV-'' \<and> takeWhile isDigit (drop 4 s) \<noteq> []"
  then obtain c r where d: "drop 4 s = c # r" and c: "isDigit c"
    by (cases "drop 4 s") (auto split: if_splits)
  have "s = take 4 s @ drop 4 s" by simp
  with h d have "s = ''INV-'' @ c # r" by metis
  with c show "\<exists>c r. s = ''INV-'' @ c # r \<and> isDigit c" by blast
next
  assume "\<exists>c r. s = ''INV-'' @ c # r \<and> isDigit c"
  then show "take 4 s = ''INV-'' \<and> takeWhile isDigit (drop 4 s) \<noteq> []" by auto
qed

lemma dropWhile_stops: "dropWhile P xs = [] \<or> \<not> P (hd (dropWhile P xs))"
  by (induction xs) auto

lemma matchINV_step:
  "matchINV (c # cs) =
     (if \<exists>d r. c # cs = ''INV-'' @ d # r \<and> isDigit d
      then Some (takeWhile isDigit (drop 4 (c # cs))) else matchINV cs)"
  by (simp only: matchINV.simps(2) Let_def front_occurrence)

lemma matchINV_None:
  "matchINV s = None \<Longrightarrow> \<not> (\<exists>p c r. s = p @ ''INV-'' @ c # r \<and> isDigit c)"
proof (induction s)
  case Nil
  show ?case by simp
next
  case (Cons a s)
  have front: "\<not> (\<exists>d r. a # s = ''INV-'' @ d # r \<and> isDigit d)"
  proof
    assume "\<exists>d r. a # s = ''INV-'' @ d # r \<and> isDigit d"
    then have "matchINV (a # s) = Some (takeWhile isDigit (drop 4 (a # s)))"
      by (simp only: matchINV_step if_True)
    with Cons.prems show False by simp
  qed
  with Cons.prems have rest: "matchINV s = None" by (simp only: matchINV_step if_False)
  show ?case
  proof
    assume "\<exists>p c r. a # s = p @ ''INV-'' @ c # r \<and> isDigit c"
    then obtain p c r where eq: "a # s = p @ ''INV-'' @ c # r" and c: "isDigit c" by blast
    show False
    proof (cases p)
      case Nil
      with eq c front show False by auto
    next
      case (Cons b p')
      with eq have "s = p' @ ''INV-'' @ c # r" by simp
      with c Cons.IH [OF rest] show False by blast
    qed
  qed
qed

lemma matchINV_Some:
  "matchINV s = Some ds \<Longrightarrow>
   \<exists>pre post. s = pre @ ''INV-'' @ ds @ post \<and> ds \<noteq> [] \<and> list_all isDigit ds
     \<and> (post = [] \<or> \<not> isDigit (hd post))
     \<and> \<not> (\<exists>p c r. length p < length pre \<and> s = p @ ''INV-'' @ c # r \<and> isDigit c)"
proof (induction s)
  case Nil
  then show ?case by simp
next
  case (Cons a s)
  show ?case
  proof (cases "\<exists>d r. a # s = ''INV-'' @ d # r \<and> isDigit d")
    case True
    with Cons.prems have ds: "ds = takeWhile isDigit (drop 4 (a # s))"
      by (simp only: matchINV_step if_True option.inject)
    note both = front_occurrence [of "a # s", THEN iffD2, OF True]
    from both have t4: "take 4 (a # s) = ''INV-''" by (rule conjunct1)
    from both have "takeWhile isDigit (drop 4 (a # s)) \<noteq> []" by (rule conjunct2)
    then have ne: "ds \<noteq> []" unfolding ds .
    let ?post = "dropWhile isDigit (drop 4 (a # s))"
    have "a # s = take 4 (a # s) @ drop 4 (a # s)" by (simp only: append_take_drop_id)
    also have "drop 4 (a # s) = ds @ ?post" by (simp only: ds takeWhile_dropWhile_id)
    finally have "a # s = [] @ ''INV-'' @ ds @ ?post" by (simp only: t4 append_Nil)
    moreover have "list_all isDigit ds" unfolding ds list_all_iff by (auto dest: set_takeWhileD)
    moreover have "?post = [] \<or> \<not> isDigit (hd ?post)" by (rule dropWhile_stops)
    ultimately show ?thesis using ne by (intro exI [of _ "[]"] exI [of _ ?post]) simp
  next
    case False
    with Cons.prems have "matchINV s = Some ds" by (simp only: matchINV_step if_False)
    from Cons.IH [OF this] obtain pre post where
      eq: "s = pre @ ''INV-'' @ ds @ post" and ne: "ds \<noteq> []" and dg: "list_all isDigit ds"
      and mx: "post = [] \<or> \<not> isDigit (hd post)"
      and lm: "\<not> (\<exists>p c r. length p < length pre \<and> s = p @ ''INV-'' @ c # r \<and> isDigit c)"
      by blast
    have "\<not> (\<exists>p c r. length p < length (a # pre) \<and> a # s = p @ ''INV-'' @ c # r \<and> isDigit c)"
    proof
      assume "\<exists>p c r. length p < length (a # pre) \<and> a # s = p @ ''INV-'' @ c # r \<and> isDigit c"
      then obtain p c r where lt: "length p < length (a # pre)"
        and e: "a # s = p @ ''INV-'' @ c # r" and c: "isDigit c" by blast
      show False
      proof (cases p)
        case Nil
        with e c False show False by auto
      next
        case (Cons b p')
        with e lt have "s = p' @ ''INV-'' @ c # r" "length p' < length pre" by simp_all
        with c lm show False by blast
      qed
    qed
    moreover from eq have "a # s = (a # pre) @ ''INV-'' @ ds @ post" by simp
    ultimately show ?thesis using ne dg mx by blast
  qed
qed

lemma takeWhile_run:
  "list_all P ds \<Longrightarrow> post = [] \<or> \<not> P (hd post) \<Longrightarrow> takeWhile P (ds @ post) = ds"
  by (induction ds) (auto simp: takeWhile_eq_Nil_iff)

lemma matchINV_leftmost:
  "s = pre @ ''INV-'' @ ds @ post \<Longrightarrow> ds \<noteq> [] \<Longrightarrow> list_all isDigit ds \<Longrightarrow>
   post = [] \<or> \<not> isDigit (hd post) \<Longrightarrow>
   \<not> (\<exists>p c r. length p < length pre \<and> s = p @ ''INV-'' @ c # r \<and> isDigit c) \<Longrightarrow>
   matchINV s = Some ds"
proof (induction pre arbitrary: s)
  case Nil
  from Nil.prems(2,3) obtain d r where ds: "ds = d # r" and d: "isDigit d"
    by (cases ds) auto
  with Nil.prems(1) have s: "s = ''INV-'' @ d # (r @ post)" by simp
  then obtain c cs where cs: "s = c # cs" by simp
  from s d have "\<exists>d r. s = ''INV-'' @ d # r \<and> isDigit d" by blast
  then have "matchINV s = Some (takeWhile isDigit (drop 4 s))"
    unfolding cs by (simp only: matchINV_step if_True)
  also from Nil.prems(1) have "drop 4 s = ds @ post" by simp
  also have "takeWhile isDigit (ds @ post) = ds"
    using Nil.prems(3,4) by (rule takeWhile_run)
  finally show ?case .
next
  case (Cons a pre)
  let ?s = "pre @ ''INV-'' @ ds @ post"
  from Cons.prems(1) have s: "s = a # ?s" by simp
  have front: "\<not> (\<exists>d r. a # ?s = ''INV-'' @ d # r \<and> isDigit d)"
  proof
    assume "\<exists>d r. a # ?s = ''INV-'' @ d # r \<and> isDigit d"
    then obtain d r where "s = [] @ ''INV-'' @ d # r" "isDigit d" unfolding s by auto
    moreover have "length ([]::string) < length (a # pre)" by simp
    ultimately show False using Cons.prems(5) by blast
  qed
  have "\<not> (\<exists>p c r. length p < length pre \<and> ?s = p @ ''INV-'' @ c # r \<and> isDigit c)"
  proof
    assume "\<exists>p c r. length p < length pre \<and> ?s = p @ ''INV-'' @ c # r \<and> isDigit c"
    then obtain p c r where "length p < length pre" "?s = p @ ''INV-'' @ c # r" "isDigit c"
      by blast
    then have "length (a # p) < length (a # pre)" "s = (a # p) @ ''INV-'' @ c # r"
      unfolding s by simp_all
    with \<open>isDigit c\<close> Cons.prems(5) show False by blast
  qed
  with Cons.IH [of ?s] Cons.prems(2,3,4) have "matchINV ?s = Some ds" by blast
  with front show ?case unfolding s by (simp only: matchINV_step if_False)
qed

lemma extractNumber_unmatched:
  assumes "\<not> (\<exists>p c r. s = p @ ''INV-'' @ c # r \<and> isDigit c)"
  shows "extractNumber s = 0"
proof (cases "matchINV s")
  case None
  then show ?thesis by (simp add: extractNumber_def)
next
  case (Some ds)
  from matchINV_Some [OF this] obtain pre post where
    "s = pre @ ''INV-'' @ ds @ post" "ds \<noteq> []" "list_all isDigit ds" by blast
  then have "s = pre @ ''INV-'' @ hd ds # (tl ds @ post) \<and> isDigit (hd ds)"
    by (cases ds) auto
  with assms show ?thesis by blast
qed

lemma extractNumber_matched:
  assumes "s = pre @ ''INV-'' @ ds @ post" and "ds \<noteq> []" and "list_all isDigit ds"
    and "post = [] \<or> \<not> isDigit (hd post)"
    and "\<not> (\<exists>p c r. length p < length pre \<and> s = p @ ''INV-'' @ c # r \<and> isDigit c)"
  shows "extractNumber s = parseInt ds"
proof -
  from assms have "matchINV s = Some ds" by (rule matchINV_leftmost)
  then show ?thesis by (simp only: extractNumber_def option.case)
qed

lemma pattern_cases:
  "\<not> (\<exists>p c r. s = p @ ''INV-'' @ c # r \<and> isDigit c)
   \<or> (\<exists>pre ds post. s = pre @ ''INV-'' @ ds @ post \<and> ds \<noteq> [] \<and> list_all isDigit ds
        \<and> (post = [] \<or> \<not> isDigit (hd post))
        \<and> \<not> (\<exists>p c r. length p < length pre \<and> s = p @ ''INV-'' @ c # r \<and> isDigit c))"
proof (cases "matchINV s")
  case None
  then show ?thesis by (intro disjI1 matchINV_None)
next
  case (Some ds)
  from matchINV_Some [OF this] show ?thesis by (intro disjI2) blast
qed

lemma parseInt_positional:
  "parseInt ds = (\<Sum>i<length ds. digitVal (ds ! i) * 10 ^ (length ds - Suc i))"
proof (induction ds rule: rev_induct)
  case Nil
  show ?case by (simp add: parseInt_def)
next
  case (snoc c ds)
  have "(\<Sum>i<length ds. digitVal ((ds @ [c]) ! i) * 10 ^ (length (ds @ [c]) - Suc i))
      = (\<Sum>i<length ds. 10 * (digitVal (ds ! i) * 10 ^ (length ds - Suc i)))"
  proof (rule sum.cong)
    fix i assume "i \<in> {..<length ds}"
    then have i: "i < length ds" by simp
    then have "length (ds @ [c]) - Suc i = Suc (length ds - Suc i)" by simp
    with i show "digitVal ((ds @ [c]) ! i) * 10 ^ (length (ds @ [c]) - Suc i)
        = 10 * (digitVal (ds ! i) * 10 ^ (length ds - Suc i))"
      by (simp add: nth_append)
  qed simp
  also have "\<dots> = 10 * parseInt ds" by (simp only: snoc.IH sum_distrib_left)
  finally show ?case by (simp add: parseInt_snoc)
qed

lemma isDigit_chars: "isDigit c = (c \<in> set ''0123456789'')"
proof
  assume "isDigit c"
  then have "48 \<le> (of_char c :: nat) \<and> (of_char c :: nat) \<le> 57"
    by (simp only: isDigit_def)
  then have "of_char c \<in> {48, 49, 50, 51, 52, 53, 54, 55, 56, 57 :: nat}"
    by simp arith
  then have "of_char c \<in> (of_char :: char \<Rightarrow> nat) ` set ''0123456789''" by simp
  then obtain d where "d \<in> set ''0123456789''" "(of_char c :: nat) = of_char d" by blast
  then show "c \<in> set ''0123456789''" by (simp only: of_char_eq_iff)
next
  assume "c \<in> set ''0123456789''"
  then show "isDigit c" by (auto simp: isDigit_def)
qed

lemma digitVal_chars: "map digitVal ''0123456789'' = [0, 1, 2, 3, 4, 5, 6, 7, 8, 9]"
  by (simp add: digitVal_def)

lemma digitChar_nonzero: "0 < d \<Longrightarrow> d < 10 \<Longrightarrow> digitChar d \<noteq> CHR ''0''"
proof
  assume d: "0 < d" "d < 10" and "digitChar d = CHR ''0''"
  then have "(of_char (digitChar d) :: nat) = of_char (CHR ''0'')" by simp
  with d show False by (simp add: digitChar_def)
qed

lemma toString_leading: "0 < n \<Longrightarrow> hd (toString n) \<noteq> CHR ''0''"
proof (induction n rule: toString.induct)
  case (1 n)
  show ?case
  proof (cases "n < 10")
    case True
    with "1.prems" show ?thesis by (simp add: toString_small digitChar_nonzero)
  next
    case False
    then have "0 < n div 10" by simp
    with "1.IH" False have "hd (toString (n div 10)) \<noteq> CHR ''0''" by simp
    with False show ?thesis by (simp add: toString_large toString_nonempty)
  qed
qed

lemma padStart_zeros:
  "\<exists>k. padStart 3 (CHR ''0'') t = replicate k (CHR ''0'') @ t
      \<and> length (replicate k (CHR ''0'') @ t) = max 3 (length t)"
  by (rule exI [of _ "3 - length t"]) (simp add: padStart_def)

text \<open>
  C3. With no stored invoice \<open>generateInvoiceNumber\<close> returns \<open>INV-001\<close>. Otherwise the
  result is \<open>INV-\<close> followed by the decimal digits of the largest extracted number plus
  one, with zeros in front up to a length of 3. The number extracted from a stored number
  is 0 when \<open>INV-\<close> followed by a digit occurs nowhere in it; otherwise it is the decimal
  value of the longest run of digits behind the leftmost \<open>INV-\<close> that a digit follows; and
  one of the two cases always applies. For the stored numbers \<open>INV-001\<close>, \<open>INV-007\<close>,
  \<open>INV-003\<close> the result is \<open>INV-008\<close>.
\<close>

theorem generateInvoiceNumber_next:
  "(getAllInvoices ls = [] \<longrightarrow> generateInvoiceNumber ls = Inr ''INV-001'')
   \<and> (nums \<noteq> [] \<and> map inv_invoiceNumber (getAllInvoices ls) = map Some nums \<longrightarrow>
      (\<exists>k t. generateInvoiceNumber ls = Inr (''INV-'' @ replicate k (CHR ''0'') @ t)
          \<and> length (replicate k (CHR ''0'') @ t) = max 3 (length t)
          \<and> t \<noteq> [] \<and> list_all isDigit t \<and> hd t \<noteq> CHR ''0''
          \<and> parseInt t = Max (extractNumber ` set nums) + 1))
   \<and> (\<not> (\<exists>p c r. s = p @ ''INV-'' @ c # r \<and> isDigit c) \<longrightarrow> extractNumber s = 0)
   \<and> (s = pre @ ''INV-'' @ ds @ post \<and> ds \<noteq> [] \<and> list_all isDigit ds
        \<and> (post = [] \<or> \<not> isDigit (hd post))
        \<and> \<not> (\<exists>p c r. length p < length pre \<and> s = p @ ''INV-'' @ c # r \<and> isDigit c) \<longrightarrow>
      extractNumber s = parseInt ds)
   \<and> (\<not> (\<exists>p c r. s = p @ ''INV-'' @ c # r \<and> isDigit c)
      \<or> (\<exists>pre ds post. s = pre @ ''INV-'' @ ds @ post \<and> ds \<noteq> [] \<and> list_all isDigit ds
            \<and> (post = [] \<or> \<not> isDigit (hd post))
            \<and> \<not> (\<exists>p c r. length p < length pre \<and> s = p @ ''INV-'' @ c # r \<and> isDigit c)))
   \<and> parseInt digits
        = (\<Sum>i<length digits. digitVal (digits ! i) * 10 ^ (length digits - Suc i))
   \<and> isDigit ch = (ch \<in> set ''0123456789'')
   \<and> map digitVal ''0123456789'' = [0, 1, 2, 3, 4, 5, 6, 7, 8, 9]
   \<and> (map inv_invoiceNumber (getAllInvoices ls)
          = [Some ''INV-001'', Some ''INV-007'', Some ''INV-003''] \<longrightarrow>
      generateInvoiceNumber ls = Inr ''INV-008'')"
proof (intro conjI impI)
  assume "getAllInvoices ls = []"
  then show "generateInvoiceNumber ls = Inr ''INV-001''"
    by (simp add: generateInvoiceNumber_def)
next
  assume h: "nums \<noteq> [] \<and> map inv_invoiceNumber (getAllInvoices ls) = map Some nums"
  let ?n = "Max (extractNumber ` set nums) + 1"
  from h have "generateInvoiceNumber ls = Inr (''INV-'' @ padStart 3 (CHR ''0'') (toString ?n))"
    by (intro generateInvoiceNumber_present) blast+
  moreover from padStart_zeros [of "toString ?n"] obtain k where
    "padStart 3 (CHR ''0'') (toString ?n) = replicate k (CHR ''0'') @ toString ?n"
    "length (replicate k (CHR ''0'') @ toString ?n) = max 3 (length (toString ?n))"
    by blast
  moreover have "toString ?n \<noteq> []" by (rule toString_nonempty)
  moreover have "list_all isDigit (toString ?n)" by (rule isDigit_toString)
  moreover have "hd (toString ?n) \<noteq> CHR ''0''" by (rule toString_leading) simp
  moreover have "parseInt (toString ?n) = ?n" by (rule parseInt_toString)
  ultimately show "\<exists>k t. generateInvoiceNumber ls = Inr (''INV-'' @ replicate k (CHR ''0'') @ t)
          \<and> length (replicate k (CHR ''0'') @ t) = max 3 (length t)
          \<and> t \<noteq> [] \<and> list_all isDigit t \<and> hd t \<noteq> CHR ''0''
          \<and> parseInt t = ?n"
    by (intro exI [of _ k] exI [of _ "toString ?n"]) (simp only: simp_thms)
next
  assume "\<not> (\<exists>p c r. s = p @ ''INV-'' @ c # r \<and> isDigit c)"
  then show "extractNumber s = 0" by (rule extractNumber_unmatched)
next
  assume "s = pre @ ''INV-'' @ ds @ post \<and> ds \<noteq> [] \<and> list_all isDigit ds
        \<and> (post = [] \<or> \<not> isDigit (hd post))
        \<and> \<not> (\<exists>p c r. length p < length pre \<and> s = p @ ''INV-'' @ c # r \<and> isDigit c)"
  then show "extractNumber s = parseInt ds"
    by (intro extractNumber_matched [of s pre ds post]) blast+
next
  show "\<not> (\<exists>p c r. s = p @ ''INV-'' @ c # r \<and> isDigit c)
      \<or> (\<exists>pre ds post. s = pre @ ''INV-'' @ ds @ post \<and> ds \<noteq> [] \<and> list_all isDigit ds
            \<and> (post = [] \<or> \<not> isDigit (hd post))
            \<and> \<not> (\<exists>p c r. length p < length pre \<and> s = p @ ''INV-'' @ c # r \<and> isDigit c))"
    by (rule pattern_cases)
next
  show "parseInt digits
        = (\<Sum>i<length digits. digitVal (digits ! i) * 10 ^ (length digits - Suc i))"
    by (rule parseInt_positional)
next
  show "isDigit ch = (ch \<in> set ''0123456789'')" by (rule isDigit_chars)
next
  show "map digitVal ''0123456789'' = [0, 1, 2, 3, 4, 5, 6, 7, 8, 9]" by (rule digitVal_chars)
next
  assume h: "map inv_invoiceNumber (getAllInvoices ls)
          = [Some ''INV-001'', Some ''INV-007'', Some ''INV-003'']"
  let ?nums = "[''INV-001'', ''INV-007'', ''INV-003'']"
  have "?nums \<noteq> []" by simp
  moreover from h have "map inv_invoiceNumber (getAllInvoices ls) = map Some ?nums" by simp
  ultimately have "generateInvoiceNumber ls
      = Inr (''INV-'' @ padStart 3 (CHR ''0'') (toString (Max (extractNumber ` set ?nums) + 1)))"
    by (rule generateInvoiceNumber_present)
  also have "Max (extractNumber ` set ?nums) + 1 = 8"
    by (simp add: extractNumber_def isDigit_def parseInt_def digitVal_def)
  also have "padStart 3 (CHR ''0'') (toString 8) = ''008''" by code_simp
  finally show "generateInvoiceNumber ls = Inr ''INV-008''" by simp
qed

theorem generateInvoiceNumber_next_witness:
  "generateInvoiceNumber (storing []) = Inr ''INV-001''
   \<and> generateInvoiceNumber (storing [numbered ''INV-001'', numbered ''INV-007'', numbered ''INV-003''])
     = Inr ''INV-008''
   \<and> extractNumber ''DRAFT-9'' = 0
   \<and> extractNumber ''XINV-12ab'' = 12
   \<and> extractNumber ''INV-007'' = 7
   \<and> generateInvoiceNumber (storing [numbered ''INV-007'', numbered ''DRAFT-9'']) = Inr ''INV-008''
   \<and> (\<exists>k t. generateInvoiceNumber (storing [numbered ''INV-007'', numbered ''DRAFT-9''])
            = Inr (''INV-'' @ replicate k (CHR ''0'') @ t)
          \<and> length (replicate k (CHR ''0'') @ t) = max 3 (length t)
          \<and> t \<noteq> [] \<and> list_all isDigit t \<and> hd t \<noteq> CHR ''0'' \<and> parseInt t = 8)"
proof -
  let ?mixed = "storing [numbered ''INV-007'', numbered ''DRAFT-9'']"
  let ?three = "storing [numbered ''INV-001'', numbered ''INV-007'', numbered ''INV-003'']"
  note draft = generateInvoiceNumber_next [where ls = ?mixed and nums = "[''INV-007'', ''DRAFT-9'']"
      and s = "''DRAFT-9''" and pre = "[]" and ds = "[]" and post = "[]"
      and digits = "''12''" and ch = "CHR ''7''"]
  note inner = generateInvoiceNumber_next [where ls = ?three and nums = "[''INV-001'', ''INV-007'', ''INV-003'']"
      and s = "''XINV-12ab''" and pre = "''X''" and ds = "''12''" and post = "''ab''"
      and digits = "''12''" and ch = "CHR ''7''"]
  note exact = generateInvoiceNumber_next [where ls = "storing []" and nums = "[]"
      and s = "''INV-007''" and pre = "[]" and ds = "''007''" and post = "[]"
      and digits = "''007''" and ch = "CHR ''7''"]
  have a: "generateInvoiceNumber (storing []) = Inr ''INV-001''"
    by (rule exact [THEN conjunct1, THEN mp]) (rule getAllInvoices_storing)
  have three: "map inv_invoiceNumber (getAllInvoices ?three)
      = [Some ''INV-001'', Some ''INV-007'', Some ''INV-003'']"
    by (simp add: getAllInvoices_storing numbered_def)
  have b: "generateInvoiceNumber ?three = Inr ''INV-008''"
    by (rule inner [THEN conjunct2, THEN conjunct2, THEN conjunct2, THEN conjunct2,
          THEN conjunct2, THEN conjunct2, THEN conjunct2, THEN conjunct2, THEN mp, OF three])
  have "matchINV ''DRAFT-9'' = None" by (simp add: isDigit_def)
  then have "\<not> (\<exists>p c r. ''DRAFT-9'' = p @ ''INV-'' @ c # r \<and> isDigit c)"
    by (rule matchINV_None)
  then have c: "extractNumber ''DRAFT-9'' = 0"
    by (rule draft [THEN conjunct2, THEN conjunct2, THEN conjunct1, THEN mp])
  have "''XINV-12ab'' = ''X'' @ ''INV-'' @ ''12'' @ ''ab'' \<and> ''12'' \<noteq> [] \<and> list_all isDigit ''12''
        \<and> (''ab'' = [] \<or> \<not> isDigit (hd ''ab''))
        \<and> \<not> (\<exists>p c r. length p < length ''X'' \<and> ''XINV-12ab'' = p @ ''INV-'' @ c # r \<and> isDigit c)"
    by (auto simp: isDigit_def)
  then have "extractNumber ''XINV-12ab'' = parseInt ''12''"
    by (rule inner [THEN conjunct2, THEN conjunct2, THEN conjunct2, THEN conjunct1, THEN mp])
  then have d: "extractNumber ''XINV-12ab'' = 12" by (simp add: parseInt_def digitVal_def)
  have "''INV-007'' = [] @ ''INV-'' @ ''007'' @ [] \<and> ''007'' \<noteq> [] \<and> list_all isDigit ''007''
        \<and> (([]::string) = [] \<or> \<not> isDigit (hd []))
        \<and> \<not> (\<exists>p c r. length p < length ([]::string) \<and> ''INV-007'' = p @ ''INV-'' @ c # r \<and> isDigit c)"
    by (simp add: isDigit_def)
  then have "extractNumber ''INV-007'' = parseInt ''007''"
    by (rule exact [THEN conjunct2, THEN conjunct2, THEN conjunct2, THEN conjunct1, THEN mp])
  then have e: "extractNumber ''INV-007'' = 7" by (simp add: parseInt_def digitVal_def)
  have mixed: "[''INV-007'', ''DRAFT-9''] \<noteq> [] \<and> map inv_invoiceNumber (getAllInvoices ?mixed)
      = map Some [''INV-007'', ''DRAFT-9'']"
    by (simp add: getAllInvoices_storing numbered_def)
  from c e have "Max (extractNumber ` set [''INV-007'', ''DRAFT-9'']) + 1 = 8" by simp
  with draft [THEN conjunct2, THEN conjunct1, THEN mp, OF mixed]
  have g: "\<exists>k t. generateInvoiceNumber ?mixed = Inr (''INV-'' @ replicate k (CHR ''0'') @ t)
          \<and> length (replicate k (CHR ''0'') @ t) = max 3 (length t)
          \<and> t \<noteq> [] \<and> list_all isDigit t \<and> hd t \<noteq> CHR ''0'' \<and> parseInt t = 8"
    by (simp only:)
  have f: "generateInvoiceNumber ?mixed = Inr ''INV-008''" by code_simp
  from a b c d e f g show ?thesis by (intro conjI)
qed

end
